theory Spec2Isabelle
  imports Main "HOL-Library.AList"
begin

section \<open>Data model\<close>

text \<open>
  The front end is three React function components (\<open>App\<close>, \<open>Filters\<close>,
  \<open>BatchProcessor\<close>), one hook (\<open>useJobPoller\<close>) and the API client (\<open>request\<close>).
  Their \<open>useState\<close> cells and the \<open>useRef\<close> cell become the fields of one record,
  together with the part of the JavaScript event loop the code talks to: the armed
  interval timers, the status fetches in flight, the creation calls awaiting their
  response and the queued \<open>setTimeout(onComplete, 0)\<close> callbacks. Every handler is a
  function from state to state; an awaited call splits its handler in two, the part
  before the \<open>await\<close> and the part that resumes with the response. \<open>App\<close> renders
  \<open>BatchProcessor\<close> unconditionally, so the hook is never unmounted while the page lives.
\<close>

text \<open>The body of \<open>GET /jobs/{job_id}\<close>; the code reads \<open>status\<close> and \<open>error_message\<close>.\<close>

record Job =
  job_id :: string
  status :: string
  error_message :: "string option"

text \<open>An interval armed by \<open>setInterval(poll, POLL_INTERVAL_MS)\<close>: its handle, the \<open>jobId\<close>
  its \<open>poll\<close> closure captured, and the time of its next expiry.\<close>

record timer =
  t_handle :: nat
  t_jobId :: string
  t_due :: nat

text \<open>A call of \<open>api.getJob\<close>: a serial number, the \<open>jobId\<close> asked for, the effect run
  (poller session, named by its interval handle) that issued it, and its start time.\<close>

record fetch =
  f_id :: nat
  f_jobId :: string
  f_session :: nat
  f_started :: nat

record sys =
  \<comment> \<open>\<open>App\<close>\<close>
  skip :: nat
  filters :: "(string \<times> string) list"
  selectedIds :: "string list"
  loading :: bool
  App_error :: "string option"
  doc_fetches :: nat
  docs_pending :: nat
  \<comment> \<open>\<open>BatchProcessor\<close>\<close>
  jobId :: "string option"
  submitting :: bool
  submitError :: "string option"
  \<comment> \<open>\<open>useJobPoller\<close>\<close>
  job :: "Job option"
  isPolling :: bool
  error :: "string option"
  intervalRef :: "nat option"
  \<comment> \<open>event loop and transport\<close>
  now :: nat
  timers :: "timer list"
  next_handle :: nat
  inflight :: "fetch list"
  fetch_log :: "fetch list"
  creation_log :: "string list list"
  creation_pending :: nat
  timeouts :: nat
  completions :: nat

definition POLL_INTERVAL_MS :: nat where
  "POLL_INTERVAL_MS = 2000"

definition TERMINAL_STATES :: "string set" where
  "TERMINAL_STATES = {''completed'', ''failed''}"

definition INITIAL_FILTERS :: "(string \<times> string) list" where
  "INITIAL_FILTERS = [(''invoice_type'', ''''), (''status'', ''''), (''min_amount'', ''''),
     (''max_amount'', ''''), (''start_date'', ''''), (''end_date'', '''')]"

text \<open>JavaScript truthiness of a value that is \<open>null\<close> or a string.\<close>

definition truthy :: "string option \<Rightarrow> bool" where
  "truthy s = (case s of None \<Rightarrow> False | Some x \<Rightarrow> x \<noteq> [])"

section \<open>The API client\<close>

text \<open>
  The \<open>detail\<close> of an error body: a string, or another JSON value, given by its
  truthiness and by the string \<open>new Error\<close> makes of it.
\<close>

datatype detail = Str string | NonStr bool string

text \<open>
  The body of a response that is not \<open>ok\<close>: no JSON (\<open>res.json()\<close> rejects and the
  \<open>catch\<close> puts the status text in the place of \<open>detail\<close>); the JSON value \<open>null\<close>, on
  which reading \<open>err.detail\<close> throws a \<open>TypeError\<close>, given with the message the engine
  puts in it; or another JSON value with its \<open>detail\<close>, \<open>None\<close> when it has none.
\<close>

datatype body = NotJson | JsonNull string | JsonValue "detail option"

text \<open>
  What \<open>fetch\<close> hands to \<open>request\<close>: a rejection (network fault, with the error's
  message), a response that is not \<open>ok\<close> (its status text and its body), an \<open>ok\<close>
  response with its parsed body, or an \<open>ok\<close> response whose body is no JSON
  (\<open>res.json()\<close> rejects, with the error's message).
\<close>

datatype 'a http = Rejected string | NotOk string body | OkJson 'a | OkNotJson string

text \<open>\<open>request\<close>: \<open>Inl\<close> is the message of the error thrown.\<close>

definition request :: "'a http \<Rightarrow> string + 'a" where
  "request res = (case res of
       Rejected m \<Rightarrow> Inl m
     | NotOk statusText b \<Rightarrow>
         (case b of
            NotJson \<Rightarrow> Inl (if statusText \<noteq> [] then statusText else ''Request failed'')
          | JsonNull e \<Rightarrow> Inl e
          | JsonValue dt \<Rightarrow>
              (case dt of
                 None \<Rightarrow> Inl ''Request failed''
               | Some (Str x) \<Rightarrow> Inl (if x \<noteq> [] then x else ''Request failed'')
               | Some (NonStr t x) \<Rightarrow> Inl (if t then x else ''Request failed'')))
     | OkJson v \<Rightarrow> Inr v
     | OkNotJson m \<Rightarrow> Inl m)"

section \<open>useJobPoller\<close>

text \<open>\<open>stop\<close>: a handle is cleared when \<open>intervalRef.current\<close> is truthy (not \<open>null\<close>, not 0).\<close>

definition stop :: "sys \<Rightarrow> sys" where
  "stop st =
     (let st1 = (case intervalRef st of
                   None \<Rightarrow> st
                 | Some h \<Rightarrow>
                     if h \<noteq> 0
                     then st\<lparr>timers := filter (\<lambda>tm. t_handle tm \<noteq> h) (timers st),
                             intervalRef := None\<rparr>
                     else st)
      in st1\<lparr>isPolling := False\<rparr>)"

text \<open>\<open>poll\<close> up to its \<open>await\<close>: the call of \<open>api.getJob(jobId)\<close> goes out.\<close>

definition poll :: "string \<Rightarrow> nat \<Rightarrow> sys \<Rightarrow> sys" where
  "poll j s st =
     (let f = \<lparr>f_id = length (fetch_log st), f_jobId = j, f_session = s, f_started = now st\<rparr>
      in st\<lparr>fetch_log := fetch_log st @ [f], inflight := inflight st @ [f]\<rparr>)"

text \<open>\<open>poll\<close> from its \<open>await\<close> on: the \<open>try\<close> body with the data, or the \<open>catch\<close>.\<close>

definition poll_resume :: "Job http \<Rightarrow> sys \<Rightarrow> sys" where
  "poll_resume res st =
     (case request res of
        Inr data \<Rightarrow>
          (let st1 = st\<lparr>job := Some data\<rparr>
           in if status data \<in> TERMINAL_STATES then stop st1 else st1)
      | Inl msg \<Rightarrow> stop (st\<lparr>error := Some msg\<rparr>))"

text \<open>The effect body, run for a new value of \<open>jobId\<close>.\<close>

definition useJobPoller_effect :: "string option \<Rightarrow> sys \<Rightarrow> sys" where
  "useJobPoller_effect jid st =
     (if \<not> truthy jid then st
      else
        (let j = the jid;
             h = next_handle st;
             st1 = st\<lparr>isPolling := True, error := None, job := None\<rparr>;
             st2 = poll j h st1
         in st2\<lparr>intervalRef := Some h,
                timers := timers st2 @ [\<lparr>t_handle = h, t_jobId = j,
                                         t_due = now st2 + POLL_INTERVAL_MS\<rparr>],
                next_handle := h + 1\<rparr>))"

text \<open>
  \<open>setJobId\<close> and the commit that follows: when the dependency \<open>jobId\<close> changed, the
  cleanup the previous effect returned (\<open>stop\<close>, returned only when the previous
  \<open>jobId\<close> was truthy) runs, then the effect body.
\<close>

definition setJobId :: "string option \<Rightarrow> sys \<Rightarrow> sys" where
  "setJobId new st =
     (if new = jobId st then st
      else useJobPoller_effect new
             ((if truthy (jobId st) then stop st else st)\<lparr>jobId := new\<rparr>))"

text \<open>An expiry of the interval with handle \<open>h\<close>: its \<open>poll\<close> runs and it is due again
  one period later.\<close>

definition tick :: "nat \<Rightarrow> sys \<Rightarrow> sys" where
  "tick h st =
     (case find (\<lambda>tm. t_handle tm = h) (timers st) of
        None \<Rightarrow> st
      | Some tm \<Rightarrow>
          poll (t_jobId tm) h
            (st\<lparr>timers := map (\<lambda>x. if t_handle x = h
                                    then x\<lparr>t_due := t_due x + POLL_INTERVAL_MS\<rparr> else x)
                              (timers st)\<rparr>))"

section \<open>BatchProcessor\<close>

definition isCompleted :: "sys \<Rightarrow> bool" where
  "isCompleted st = (case job st of None \<Rightarrow> False | Some d \<Rightarrow> status d = ''completed'')"


text \<open>
  A run of the body of \<open>BatchProcessor\<close>: its one side effect is
  \<open>setTimeout(onComplete, 0)\<close> when \<open>isCompleted\<close> (\<open>App\<close> always passes \<open>onComplete\<close>).
  The setters one handler calls in a row are batched, also after an \<open>await\<close> and in a
  timer callback, as React does from version 18 on: the body runs once after them.
\<close>

definition BatchProcessor :: "sys \<Rightarrow> sys" where
  "BatchProcessor st = (if isCompleted st then st\<lparr>timeouts := timeouts st + 1\<rparr> else st)"

text \<open>
  The commit after a handler that called \<open>setJobId(new)\<close>. The body runs on the cells
  the handler has set; \<open>job\<close> is still the one of the previous session then. The body
  does not read \<open>jobId\<close>, so it is run here before \<open>setJobId\<close> stores the id and runs
  the cleanup and the effect. When these ran and called a setter, the body runs once
  more.
\<close>

definition commit_jobId :: "string option \<Rightarrow> sys \<Rightarrow> sys" where
  "commit_jobId new st =
     (let st1 = setJobId new (BatchProcessor st)
      in if new \<noteq> jobId st \<and> (truthy (jobId st) \<or> truthy new) then BatchProcessor st1
         else st1)"

text \<open>\<open>handleProcess\<close> up to its \<open>await\<close>.\<close>

definition handleProcess :: "sys \<Rightarrow> sys" where
  "handleProcess st =
     (if selectedIds st = [] then st
      else commit_jobId None
             (st\<lparr>submitting := True, submitError := None,
                 creation_log := creation_log st @ [selectedIds st],
                 creation_pending := creation_pending st + 1\<rparr>))"

text \<open>\<open>handleProcess\<close> from its \<open>await\<close> on: \<open>try\<close> or \<open>catch\<close>, then \<open>finally\<close>.\<close>

definition handleProcess_resume :: "string http \<Rightarrow> sys \<Rightarrow> sys" where
  "handleProcess_resume res st =
     (case request res of
        Inr new_id \<Rightarrow>
          commit_jobId (Some new_id)
            (st\<lparr>submitting := False, creation_pending := creation_pending st - 1\<rparr>)
      | Inl msg \<Rightarrow>
          BatchProcessor
            (st\<lparr>submitError := Some msg, submitting := False,
                creation_pending := creation_pending st - 1\<rparr>))"

text \<open>The button's \<open>disabled\<close> attribute, and a click on the button.\<close>

definition disabled :: "sys \<Rightarrow> bool" where
  "disabled st = (selectedIds st = [] \<or> submitting st \<or> isPolling st)"

definition onClick :: "sys \<Rightarrow> sys" where
  "onClick st = (if disabled st then st else handleProcess st)"



definition submit_error_text :: "sys \<Rightarrow> string option" where
  "submit_error_text st = (if truthy (submitError st) then submitError st else None)"

section \<open>App and Filters\<close>

text \<open>
  \<open>fetchDocuments\<close> up to its \<open>await\<close>: \<open>loading\<close> and the error of \<open>App\<close> (the field
  \<open>App_error\<close>) are set and the call of \<open>api.getDocuments\<close> goes out; the dates typed are
  taken to parse. From the \<open>await\<close> on: the documents are stored (they are not part of
  the state here; the answer's payload is left out), or the error is; then \<open>loading\<close> is
  reset.
\<close>

definition fetchDocuments :: "sys \<Rightarrow> sys" where
  "fetchDocuments st =
     st\<lparr>loading := True, App_error := None, doc_fetches := doc_fetches st + 1,
        docs_pending := docs_pending st + 1\<rparr>"

definition fetchDocuments_resume :: "unit http \<Rightarrow> sys \<Rightarrow> sys" where
  "fetchDocuments_resume res st =
     (case request res of
        Inr data \<Rightarrow> st
      | Inl msg \<Rightarrow> st\<lparr>App_error := Some msg\<rparr>)
     \<lparr>loading := False, docs_pending := docs_pending st - 1\<rparr>"

definition handleFilterChange :: "(string \<times> string) list \<Rightarrow> sys \<Rightarrow> sys" where
  "handleFilterChange newFilters st =
     st\<lparr>skip := 0, filters := newFilters, selectedIds := []\<rparr>"

text \<open>\<open>Filters\<close>: the \<open>onChange\<close> of the input for \<open>key\<close>, with the value typed.\<close>

definition Filters_set :: "string \<Rightarrow> string \<Rightarrow> sys \<Rightarrow> sys" where
  "Filters_set key v st = handleFilterChange (AList.update key v (filters st)) st"

text \<open>\<open>handleToggleSelect\<close>; a JavaScript \<open>Set\<close> keeps insertion order, so it is a list
  without duplicates, \<open>add\<close> appending at the end.\<close>

definition handleToggleSelect :: "string \<Rightarrow> sys \<Rightarrow> sys" where
  "handleToggleSelect d st =
     st\<lparr>selectedIds := (let prev = selectedIds st
                         in if d \<in> set prev then removeAll d prev else prev @ [d])\<rparr>"

definition handleBatchComplete :: "sys \<Rightarrow> sys" where
  "handleBatchComplete st = fetchDocuments (st\<lparr>selectedIds := []\<rparr>)"

section \<open>Events\<close>

text \<open>
  What can happen to the page: the operator toggles a row, edits a filter or clicks the
  button; the creation call, a status fetch or a documents fetch settles; an interval
  expires; a queued \<open>onComplete\<close> runs. Each event carries its time in milliseconds. An
  event is enabled when time does not run backwards, no armed interval is overdue (an
  interval is taken to fire at its nominal due time, neither early nor late), and the
  thing it resumes exists.

  Every state update of \<open>App\<close> renders \<open>BatchProcessor\<close> anew. After a filter edit the
  body runs, then the effect on \<open>[skip, filters]\<close> calls \<open>fetchDocuments\<close>, and the body
  runs again when that changed \<open>loading\<close> or the error. A documents answer renders when
  it stores documents (a fresh array) or changes the error or \<open>loading\<close>.
\<close>

datatype event =
    Toggle string
  | FilterChange string string
  | Click
  | SubmitResult "string http"
  | Tick nat
  | Resolve nat "Job http"
  | Timeout
  | DocsResult "unit http"

definition enabled :: "sys \<Rightarrow> nat \<Rightarrow> event \<Rightarrow> bool" where
  "enabled st t e =
     (now st \<le> t \<and> list_all (\<lambda>tm. t \<le> t_due tm) (timers st) \<and>
      (case e of
         Tick h \<Rightarrow> list_ex (\<lambda>tm. t_handle tm = h \<and> t_due tm = t) (timers st)
       | Resolve n res \<Rightarrow> list_ex (\<lambda>f. f_id f = n) (inflight st)
       | SubmitResult res \<Rightarrow> 0 < creation_pending st
       | Timeout \<Rightarrow> 0 < timeouts st
       | DocsResult res \<Rightarrow> 0 < docs_pending st
       | _ \<Rightarrow> True))"

definition dispatch :: "event \<Rightarrow> sys \<Rightarrow> sys" where
  "dispatch e st =
     (case e of
        Toggle d \<Rightarrow> BatchProcessor (handleToggleSelect d st)
      | FilterChange key v \<Rightarrow>
          (let st1 = BatchProcessor (Filters_set key v st);
               st2 = fetchDocuments st1
           in if \<not> loading st1 \<or> App_error st1 \<noteq> None then BatchProcessor st2 else st2)
      | Click \<Rightarrow> onClick st
      | SubmitResult res \<Rightarrow> handleProcess_resume res st
      | Tick h \<Rightarrow> tick h st
      | Resolve n res \<Rightarrow>
          BatchProcessor
            (poll_resume res (st\<lparr>inflight := filter (\<lambda>f. f_id f \<noteq> n) (inflight st)\<rparr>))
      | Timeout \<Rightarrow>
          BatchProcessor
            (handleBatchComplete
               (st\<lparr>timeouts := timeouts st - 1, completions := completions st + 1\<rparr>))
      | DocsResult res \<Rightarrow>
          (let st1 = fetchDocuments_resume res st
           in if isl (request res) \<and> App_error st1 = App_error st \<and> \<not> loading st then st1
              else BatchProcessor st1))"

definition step :: "sys \<Rightarrow> nat \<times> event \<Rightarrow> sys option" where
  "step st te =
     (if enabled st (fst te) (snd te) then Some (dispatch (snd te) (st\<lparr>now := fst te\<rparr>))
      else None)"

fun run :: "sys \<Rightarrow> (nat \<times> event) list \<Rightarrow> sys option" where
  "run st [] = Some st"
| "run st (te # tes) = (case step st te of None \<Rightarrow> None | Some st' \<Rightarrow> run st' tes)"

text \<open>The page after mount, once the first documents have arrived: nothing selected, no
  job, nothing armed or in flight.\<close>

definition init :: sys where
  "init = \<lparr>skip = 0, filters = INITIAL_FILTERS, selectedIds = [],
           loading = False, App_error = None, doc_fetches = 0, docs_pending = 0,
           jobId = None, submitting = False, submitError = None,
           job = None, isPolling = False, error = None, intervalRef = None,
           now = 0, timers = [], next_handle = 1, inflight = [], fetch_log = [],
           creation_log = [], creation_pending = 0, timeouts = 0, completions = 0\<rparr>"

section \<open>Reachable states\<close>

text \<open>
  What holds of every state the page can reach: the armed intervals are exactly the one
  in \<open>intervalRef\<close>, if any; while it is armed the poller reports \<open>isPolling\<close> and the
  \<open>jobId\<close> is truthy; handles are positive and below the next one to be handed out; every
  fetch was issued by a session that has already begun, and every fetch in flight has
  been issued.
\<close>

definition wf :: "sys \<Rightarrow> bool" where
  "wf st =
     (map t_handle (timers st) = (case intervalRef st of None \<Rightarrow> [] | Some h \<Rightarrow> [h]) \<and>
      (intervalRef st \<noteq> None \<longrightarrow> isPolling st \<and> truthy (jobId st)) \<and>
      list_all (\<lambda>tm. 0 < t_handle tm \<and> t_handle tm < next_handle st) (timers st) \<and>
      list_all (\<lambda>f. f_session f < next_handle st) (fetch_log st) \<and>
      set (inflight st) \<subseteq> set (fetch_log st) \<and> 0 < next_handle st)"

text \<open>The status fetches a poller session has issued, oldest first, and their start times.\<close>

definition session_fetches :: "nat \<Rightarrow> sys \<Rightarrow> fetch list" where
  "session_fetches s st = filter (\<lambda>f. f_session f = s) (fetch_log st)"

definition session_starts :: "nat \<Rightarrow> sys \<Rightarrow> nat list" where
  "session_starts s st = map f_started (session_fetches s st)"

text \<open>A session that is over: it has issued exactly the fetches \<open>F\<close>, it has begun, and
  no armed interval belongs to it.\<close>

definition closed_session :: "nat \<Rightarrow> fetch list \<Rightarrow> sys \<Rightarrow> bool" where
  "closed_session s F st =
     (session_fetches s st = F \<and> s < next_handle st \<and> s \<notin> set (map t_handle (timers st)))"

text \<open>
  The fetches of each session start on a fixed grid: the \<open>k\<close>-th one \<open>k\<close> periods after
  the first; and an armed interval is due one period after the last fetch of its session.
\<close>

definition periodic :: "sys \<Rightarrow> bool" where
  "periodic st =
     ((\<forall>s k. k < length (session_starts s st) \<longrightarrow>
          session_starts s st ! k = session_starts s st ! 0 + k * POLL_INTERVAL_MS) \<and>
      (\<forall>tm \<in> set (timers st).
          session_starts (t_handle tm) st \<noteq> [] \<and>
          t_due tm = session_starts (t_handle tm) st ! 0 +
                     length (session_starts (t_handle tm) st) * POLL_INTERVAL_MS))"



text \<open>A creation call awaits its response exactly while \<open>submitting\<close>, and then no job
  id is set.\<close>

definition submission_inv :: "sys \<Rightarrow> bool" where
  "submission_inv st =
     (creation_pending st = (if submitting st then 1 else 0) \<and>
      (submitting st \<longrightarrow> jobId st = None))"

section \<open>Scenarios\<close>

text \<open>
  The operator selects \<open>d1\<close> and \<open>d2\<close> and clicks; the creation call answers with job
  \<open>j1\<close> at 60 ms. The poller session with handle 1 begins: its first fetch is in flight
  and its interval is due at 2060 ms. \<open>st_polling\<close> is the state reached.
\<close>

definition polling_j1 :: "(nat \<times> event) list" where
  "polling_j1 = [(0, Toggle ''d1''), (5, Toggle ''d2''), (10, Click),
                 (60, SubmitResult (OkJson ''j1''))]"

definition j1_is :: "string \<Rightarrow> Job" where
  "j1_is s = \<lparr>job_id = ''j1'', status = s, error_message = None\<rparr>"


definition st_polling :: sys where
  "st_polling =
     \<lparr>skip = 0, filters = INITIAL_FILTERS, selectedIds = [''d1'', ''d2''],
      loading = False, App_error = None, doc_fetches = 0, docs_pending = 0,
      jobId = Some ''j1'', submitting = False, submitError = None,
      job = None, isPolling = True, error = None, intervalRef = Some 1,
      now = 60, timers = [\<lparr>t_handle = 1, t_jobId = ''j1'', t_due = 2060\<rparr>],
      next_handle = 2,
      inflight = [\<lparr>f_id = 0, f_jobId = ''j1'', f_session = 1, f_started = 60\<rparr>],
      fetch_log = [\<lparr>f_id = 0, f_jobId = ''j1'', f_session = 1, f_started = 60\<rparr>],
      creation_log = [[''d1'', ''d2'']], creation_pending = 0, timeouts = 0, completions = 0\<rparr>"

text \<open>Scenario A of the specification: the first poll answers \<open>processing\<close>, the second,
  one period later, \<open>completed\<close>.\<close>

definition scenario_A :: "(nat \<times> event) list" where
  "scenario_A = polling_j1 @
     [(300, Resolve 0 (OkJson (j1_is ''processing''))), (2060, Tick 1),
      (2200, Resolve 1 (OkJson (j1_is ''completed'')))]"

text \<open>
  Scenario D: the first fetch for \<open>j1\<close> is slow, so the interval starts a second one;
  the first then answers \<open>failed\<close>, the operator submits again and job \<open>j2\<close> is tracked;
  the second fetch for \<open>j1\<close> answers last.
\<close>

definition scenario_D :: "(nat \<times> event) list" where
  "scenario_D = polling_j1 @
     [(2060, Tick 1), (2500, Resolve 0 (OkJson (j1_is ''failed''))), (3000, Click),
      (3100, SubmitResult (OkJson ''j2'')),
      (3200, Resolve 1 (OkJson (j1_is ''completed'')))]"

text \<open>A state with a creation call awaiting its response and a status fetch of the previous
  job still in flight.\<close>

definition st_resubmitting :: sys where
  "st_resubmitting =
     the (run init (polling_j1 @ [(2060, Tick 1), (2500, Resolve 0 (OkJson (j1_is ''failed''))),
                                  (3000, Click)]))"

section \<open>The invariant is kept by every event\<close>

lemma wf_init: "wf init"
  by (simp add: wf_def init_def)

lemma stop_clears:
  assumes "wf st"
  shows "timers (stop st) = []" and "intervalRef (stop st) = None" and "isPolling (stop st) = False"
  using assms by (auto simp: wf_def stop_def Let_def split: option.splits)

lemma stop_fields:
  "fetch_log (stop st) = fetch_log st" "next_handle (stop st) = next_handle st"
  "jobId (stop st) = jobId st" "job (stop st) = job st" "error (stop st) = error st"
  "inflight (stop st) = inflight st" "creation_log (stop st) = creation_log st"
  "timeouts (stop st) = timeouts st" "completions (stop st) = completions st"
  "now (stop st) = now st" "selectedIds (stop st) = selectedIds st"
  "submitting (stop st) = submitting st" "submitError (stop st) = submitError st"
  "creation_pending (stop st) = creation_pending st"
  by (simp_all add: stop_def Let_def split: option.splits)

lemma wf_stop: "wf st \<Longrightarrow> wf (stop st)"
  using stop_clears[of st] by (simp add: wf_def stop_fields)

lemma wf_BatchProcessor: "wf st \<Longrightarrow> wf (BatchProcessor st)"
  by (simp add: wf_def BatchProcessor_def)

lemma wf_effect:
  assumes "wf st" "timers st = []" "jobId st = jid"
  shows "wf (useJobPoller_effect jid st)"
  using assms
  by (auto simp: wf_def useJobPoller_effect_def poll_def Let_def list_all_iff split: option.splits)

lemma wf_jobId_upd:
  assumes "wf st" "timers st = []"
  shows "wf (st\<lparr>jobId := new\<rparr>)"
  using assms by (auto simp: wf_def split: option.splits)

lemma wf_setJobId: "wf st \<Longrightarrow> wf (setJobId new st)"
proof -
  assume w: "wf st"
  show ?thesis
  proof (cases "new = jobId st")
    case True
    then show ?thesis using w by (simp add: setJobId_def)
  next
    case False
    let ?s1 = "if truthy (jobId st) then stop st else st"
    have t: "timers ?s1 = []"
      using w stop_clears(1)[OF w] by (auto simp: wf_def split: option.splits)
    have w1: "wf ?s1" using w wf_stop by simp
    have "wf (?s1\<lparr>jobId := new\<rparr>)" using wf_jobId_upd[OF w1 t] .
    moreover have "timers (?s1\<lparr>jobId := new\<rparr>) = []" using t by simp
    ultimately have "wf (useJobPoller_effect new (?s1\<lparr>jobId := new\<rparr>))"
      by (intro wf_effect) simp_all
    then show ?thesis using False by (simp add: setJobId_def)
  qed
qed

lemma wf_poll: "wf st \<Longrightarrow> s < next_handle st \<Longrightarrow> wf (poll j s st)"
  by (auto simp: wf_def poll_def Let_def)

lemma map_handle_bump:
  "map (t_handle \<circ> (\<lambda>x. if t_handle x = h then x\<lparr>t_due := g x\<rparr> else x)) xs = map t_handle xs"
  by (induction xs) auto

lemma wf_tick: "wf st \<Longrightarrow> wf (tick h st)"
proof -
  assume w: "wf st"
  show ?thesis
  proof (cases "find (\<lambda>tm. t_handle tm = h) (timers st)")
    case None
    then show ?thesis using w by (simp add: tick_def)
  next
    case (Some tm)
    then have "tm \<in> set (timers st)" "t_handle tm = h"
      by (auto simp: find_Some_iff)
    then have h: "h < next_handle st" using w by (auto simp: wf_def list_all_iff)
    let ?s1 = "st\<lparr>timers := map (\<lambda>x. if t_handle x = h
                                    then x\<lparr>t_due := t_due x + POLL_INTERVAL_MS\<rparr> else x)
                              (timers st)\<rparr>"
    have "wf ?s1" using w by (auto simp: wf_def list_all_iff map_handle_bump)
    then have "wf (poll (t_jobId tm) h ?s1)" using h by (intro wf_poll) simp_all
    then show ?thesis using Some by (simp add: tick_def)
  qed
qed

lemma wf_poll_resume: "wf st \<Longrightarrow> wf (poll_resume res st)"
proof -
  assume w: "wf st"
  have a: "\<And>d. wf (st\<lparr>job := Some d\<rparr>)" using w by (simp add: wf_def)
  have b: "\<And>m. wf (st\<lparr>error := Some m\<rparr>)" using w by (simp add: wf_def)
  show ?thesis
    by (auto simp: poll_resume_def Let_def a b wf_stop split: sum.splits)
qed

lemma wf_commit_jobId: "wf st \<Longrightarrow> wf (commit_jobId new st)"
  by (simp add: commit_jobId_def Let_def wf_BatchProcessor wf_setJobId)

lemma wf_handleProcess: "wf st \<Longrightarrow> wf (handleProcess st)"
proof -
  assume w: "wf st"
  have "wf (st\<lparr>submitting := True, submitError := None,
                 creation_log := creation_log st @ [selectedIds st],
                 creation_pending := creation_pending st + 1\<rparr>)"
    using w by (simp add: wf_def)
  then show ?thesis using w by (simp add: handleProcess_def wf_commit_jobId)
qed

lemma wf_handleProcess_resume: "wf st \<Longrightarrow> wf (handleProcess_resume res st)"
proof -
  assume w: "wf st"
  have a: "wf (st\<lparr>submitting := False, creation_pending := creation_pending st - 1\<rparr>)"
    using w by (simp add: wf_def)
  have b: "\<And>m. wf (st\<lparr>submitError := Some m, submitting := False,
                       creation_pending := creation_pending st - 1\<rparr>)"
    using w by (simp add: wf_def)
  show ?thesis
    using wf_commit_jobId[OF a] wf_BatchProcessor[OF b]
    by (simp add: handleProcess_resume_def split: sum.splits)
qed

lemma wf_fetchDocuments: "wf st \<Longrightarrow> wf (fetchDocuments st)"
  by (simp add: wf_def fetchDocuments_def)

lemma wf_fetchDocuments_resume: "wf st \<Longrightarrow> wf (fetchDocuments_resume res st)"
  by (simp add: wf_def fetchDocuments_resume_def split: sum.splits)

lemma wf_dispatch: "wf st \<Longrightarrow> wf (dispatch e st)"
proof (cases e)
  case (Toggle d)
  assume "wf st"
  then have "wf (handleToggleSelect d st)" by (simp add: wf_def handleToggleSelect_def)
  then show ?thesis using Toggle by (simp add: dispatch_def wf_BatchProcessor)
next
  case (FilterChange k v)
  assume "wf st"
  then have "wf (Filters_set k v st)" by (simp add: wf_def Filters_set_def handleFilterChange_def)
  then show ?thesis using FilterChange
    by (simp add: dispatch_def Let_def wf_BatchProcessor wf_fetchDocuments)
next
  case Click
  assume "wf st"
  then show ?thesis using Click by (simp add: dispatch_def onClick_def wf_handleProcess)
next
  case (SubmitResult r)
  assume "wf st"
  then show ?thesis using SubmitResult by (simp add: dispatch_def wf_handleProcess_resume)
next
  case (Tick h)
  assume "wf st"
  then show ?thesis using Tick by (simp add: dispatch_def wf_tick)
next
  case (Resolve n r)
  assume "wf st"
  then have "wf (st\<lparr>inflight := filter (\<lambda>f. f_id f \<noteq> n) (inflight st)\<rparr>)"
    by (auto simp: wf_def)
  then show ?thesis using Resolve by (simp add: dispatch_def wf_BatchProcessor wf_poll_resume)
next
  case Timeout
  assume "wf st"
  then have "wf (handleBatchComplete
               (st\<lparr>timeouts := timeouts st - 1, completions := completions st + 1\<rparr>))"
    by (simp add: wf_def handleBatchComplete_def fetchDocuments_def)
  then show ?thesis using Timeout by (simp add: dispatch_def wf_BatchProcessor)
next
  case (DocsResult r)
  assume "wf st"
  then show ?thesis using DocsResult
    by (simp add: dispatch_def Let_def wf_BatchProcessor wf_fetchDocuments_resume)
qed

lemma wf_step: "wf st \<Longrightarrow> step st te = Some st' \<Longrightarrow> wf st'"
proof -
  assume w: "wf st" and s: "step st te = Some st'"
  have "wf (st\<lparr>now := fst te\<rparr>)" using w by (simp add: wf_def)
  then show ?thesis using s wf_dispatch by (auto simp: step_def split: if_splits)
qed

lemma wf_run: "wf st \<Longrightarrow> run st tes = Some st' \<Longrightarrow> wf st'"
proof (induction tes arbitrary: st)
  case Nil
  then show ?case by simp
next
  case (Cons te tes)
  then show ?case by (auto split: option.splits dest: wf_step)
qed

section \<open>Frame lemmas\<close>

lemma filters_stop: "filters (stop st) = filters st" "selectedIds (stop st) = selectedIds st"
  by (simp_all add: stop_def Let_def split: option.splits)

lemma filters_poll: "filters (poll j s st) = filters st" 
  by (simp_all add: poll_def Let_def)

lemma filters_BatchProcessor: "filters (BatchProcessor st) = filters st" "selectedIds (BatchProcessor st) = selectedIds st"
  by (simp_all add: BatchProcessor_def)

lemma filters_effect: "filters (useJobPoller_effect jid st) = filters st"
  by (simp add: useJobPoller_effect_def Let_def filters_poll)

lemma filters_setJobId: "filters (setJobId new st) = filters st"
  by (simp add: setJobId_def filters_effect filters_stop)

lemma filters_tick: "filters (tick h st) = filters st"
  by (simp add: tick_def filters_poll split: option.splits)

lemma filters_poll_resume: "filters (poll_resume res st) = filters st"
  by (simp add: poll_resume_def Let_def filters_stop split: sum.splits)

lemma filters_commit_jobId: "filters (commit_jobId new st) = filters st"
  by (simp add: commit_jobId_def Let_def filters_BatchProcessor filters_setJobId)

lemma filters_handleProcess: "filters (handleProcess st) = filters st"
  by (simp add: handleProcess_def filters_commit_jobId)

lemma filters_handleProcess_resume: "filters (handleProcess_resume res st) = filters st"
  by (simp add: handleProcess_resume_def filters_BatchProcessor filters_commit_jobId
      split: sum.splits)

lemma filters_dispatch:
  "filters (dispatch e st) = (case e of FilterChange key v \<Rightarrow> AList.update key v (filters st) | _ \<Rightarrow> filters st)"
  by (cases e)
     (simp_all add: dispatch_def Let_def filters_BatchProcessor filters_handleProcess_resume
        filters_tick filters_poll_resume onClick_def filters_handleProcess handleToggleSelect_def
        handleBatchComplete_def Filters_set_def handleFilterChange_def fetchDocuments_def
        fetchDocuments_resume_def split: sum.splits)

section \<open>A session that is over stays over\<close>

lemma closed_stop: "closed_session s F st \<Longrightarrow> closed_session s F (stop st)"
  by (auto simp: closed_session_def session_fetches_def stop_def Let_def split: option.splits)

lemma closed_BatchProcessor: "closed_session s F st \<Longrightarrow> closed_session s F (BatchProcessor st)"
  by (simp add: closed_session_def session_fetches_def BatchProcessor_def)

lemma closed_poll: "closed_session s F st \<Longrightarrow> s' \<noteq> s \<Longrightarrow> closed_session s F (poll j s' st)"
  by (simp add: closed_session_def session_fetches_def poll_def Let_def)

lemma closed_effect: "closed_session s F st \<Longrightarrow> closed_session s F (useJobPoller_effect jid st)"
proof -
  assume c: "closed_session s F st"
  show ?thesis
  proof (cases "truthy jid")
    case False
    then show ?thesis using c by (simp add: useJobPoller_effect_def)
  next
    case True
    let ?s1 = "st\<lparr>isPolling := True, error := None, job := None\<rparr>"
    have ne: "next_handle st \<noteq> s" using c by (simp add: closed_session_def)
    have "closed_session s F ?s1" using c by (simp add: closed_session_def session_fetches_def)
    then have "closed_session s F (poll (the jid) (next_handle st) ?s1)"
      using ne by (rule closed_poll)
    then show ?thesis using True ne
      by (simp add: useJobPoller_effect_def Let_def closed_session_def session_fetches_def poll_def)
  qed
qed

lemma closed_setJobId: "closed_session s F st \<Longrightarrow> closed_session s F (setJobId new st)"
proof -
  assume c: "closed_session s F st"
  have "closed_session s F (if truthy (jobId st) then stop st else st)"
    using c closed_stop by simp
  then have "closed_session s F ((if truthy (jobId st) then stop st else st)\<lparr>jobId := new\<rparr>)"
    by (simp add: closed_session_def session_fetches_def)
  then show ?thesis using c by (simp add: setJobId_def closed_effect)
qed

lemma closed_tick: "closed_session s F st \<Longrightarrow> closed_session s F (tick h st)"
proof -
  assume c: "closed_session s F st"
  show ?thesis
  proof (cases "find (\<lambda>tm. t_handle tm = h) (timers st)")
    case None
    then show ?thesis using c by (simp add: tick_def)
  next
    case (Some tm)
    then have "tm \<in> set (timers st)" "t_handle tm = h" by (auto simp: find_Some_iff)
    then have ne: "h \<noteq> s" using c by (auto simp: closed_session_def)
    have "closed_session s F (st\<lparr>timers := map (\<lambda>x. if t_handle x = h
                                    then x\<lparr>t_due := t_due x + POLL_INTERVAL_MS\<rparr> else x)
                              (timers st)\<rparr>)"
      using c by (simp add: closed_session_def session_fetches_def map_handle_bump)
    then show ?thesis using Some ne by (simp add: tick_def closed_poll)
  qed
qed

lemma closed_poll_resume: "closed_session s F st \<Longrightarrow> closed_session s F (poll_resume res st)"
proof -
  assume c: "closed_session s F st"
  have a: "\<And>d. closed_session s F (st\<lparr>job := Some d\<rparr>)"
    using c by (simp add: closed_session_def session_fetches_def)
  have b: "\<And>m. closed_session s F (st\<lparr>error := Some m\<rparr>)"
    using c by (simp add: closed_session_def session_fetches_def)
  show ?thesis by (auto simp: poll_resume_def Let_def a b closed_stop split: sum.splits)
qed

lemma closed_commit_jobId: "closed_session s F st \<Longrightarrow> closed_session s F (commit_jobId new st)"
  by (simp add: commit_jobId_def Let_def closed_BatchProcessor closed_setJobId)

lemma closed_handleProcess: "closed_session s F st \<Longrightarrow> closed_session s F (handleProcess st)"
proof -
  assume c: "closed_session s F st"
  have "closed_session s F (st\<lparr>submitting := True, submitError := None,
                 creation_log := creation_log st @ [selectedIds st],
                 creation_pending := creation_pending st + 1\<rparr>)"
    using c by (simp add: closed_session_def session_fetches_def)
  then show ?thesis using c by (simp add: handleProcess_def closed_commit_jobId)
qed

lemma closed_handleProcess_resume:
  "closed_session s F st \<Longrightarrow> closed_session s F (handleProcess_resume res st)"
proof -
  assume c: "closed_session s F st"
  have a: "closed_session s F (st\<lparr>submitting := False, creation_pending := creation_pending st - 1\<rparr>)"
    using c by (simp add: closed_session_def session_fetches_def)
  have b: "\<And>m. closed_session s F (st\<lparr>submitError := Some m, submitting := False,
                       creation_pending := creation_pending st - 1\<rparr>)"
    using c by (simp add: closed_session_def session_fetches_def)
  show ?thesis
    using closed_commit_jobId[OF a] closed_BatchProcessor[OF b]
    by (simp add: handleProcess_resume_def split: sum.splits)
qed

lemma closed_fetchDocuments: "closed_session s F st \<Longrightarrow> closed_session s F (fetchDocuments st)"
  by (simp add: closed_session_def session_fetches_def fetchDocuments_def)

lemma closed_fetchDocuments_resume:
  "closed_session s F st \<Longrightarrow> closed_session s F (fetchDocuments_resume res st)"
  by (simp add: closed_session_def session_fetches_def fetchDocuments_resume_def split: sum.splits)

lemma closed_dispatch: "closed_session s F st \<Longrightarrow> closed_session s F (dispatch e st)"
proof (cases e)
  case (Toggle d)
  assume "closed_session s F st"
  then have "closed_session s F (handleToggleSelect d st)"
    by (simp add: closed_session_def session_fetches_def handleToggleSelect_def)
  then show ?thesis using Toggle by (simp add: dispatch_def closed_BatchProcessor)
next
  case (FilterChange k v)
  assume "closed_session s F st"
  then have "closed_session s F (Filters_set k v st)"
    by (simp add: closed_session_def session_fetches_def Filters_set_def handleFilterChange_def)
  then show ?thesis using FilterChange
    by (simp add: dispatch_def Let_def closed_BatchProcessor closed_fetchDocuments)
next
  case Click
  assume "closed_session s F st"
  then show ?thesis using Click by (simp add: dispatch_def onClick_def closed_handleProcess)
next
  case (SubmitResult r)
  assume "closed_session s F st"
  then show ?thesis using SubmitResult by (simp add: dispatch_def closed_handleProcess_resume)
next
  case (Tick h)
  assume "closed_session s F st"
  then show ?thesis using Tick by (simp add: dispatch_def closed_tick)
next
  case (Resolve n r)
  assume "closed_session s F st"
  then have "closed_session s F (st\<lparr>inflight := filter (\<lambda>f. f_id f \<noteq> n) (inflight st)\<rparr>)"
    by (simp add: closed_session_def session_fetches_def)
  then show ?thesis using Resolve by (simp add: dispatch_def closed_BatchProcessor closed_poll_resume)
next
  case Timeout
  assume "closed_session s F st"
  then have "closed_session s F (handleBatchComplete
               (st\<lparr>timeouts := timeouts st - 1, completions := completions st + 1\<rparr>))"
    by (simp add: closed_session_def session_fetches_def handleBatchComplete_def fetchDocuments_def)
  then show ?thesis using Timeout by (simp add: dispatch_def closed_BatchProcessor)
next
  case (DocsResult r)
  assume "closed_session s F st"
  then show ?thesis using DocsResult
    by (simp add: dispatch_def Let_def closed_BatchProcessor closed_fetchDocuments_resume)
qed

lemma closed_step: "closed_session s F st \<Longrightarrow> step st te = Some st' \<Longrightarrow> closed_session s F st'"
proof -
  assume c: "closed_session s F st" and s: "step st te = Some st'"
  have "closed_session s F (st\<lparr>now := fst te\<rparr>)"
    using c by (simp add: closed_session_def session_fetches_def)
  then show ?thesis using s closed_dispatch by (auto simp: step_def split: if_splits)
qed

lemma closed_run: "closed_session s F st \<Longrightarrow> run st tes = Some st' \<Longrightarrow> closed_session s F st'"
proof (induction tes arbitrary: st)
  case Nil
  then show ?case by simp
next
  case (Cons te tes)
  then show ?case by (auto split: option.splits dest: closed_step)
qed

lemma no_timers_closed:
  "timers st = [] \<Longrightarrow> s < next_handle st \<Longrightarrow> closed_session s (session_fetches s st) st"
  by (simp add: closed_session_def)

lemma quiet_after:
  assumes "timers st = []" "s < next_handle st" "run st tes = Some st'"
  shows "session_fetches s st' = session_fetches s st"
  using closed_run[OF no_timers_closed[OF assms(1,2)] assms(3)]
  by (simp add: closed_session_def)

section \<open>What a settled call does\<close>

lemma BatchProcessor_fields:
  "job (BatchProcessor st) = job st" "isPolling (BatchProcessor st) = isPolling st"
  "intervalRef (BatchProcessor st) = intervalRef st" "timers (BatchProcessor st) = timers st"
  "next_handle (BatchProcessor st) = next_handle st" "error (BatchProcessor st) = error st"
  "fetch_log (BatchProcessor st) = fetch_log st" "creation_log (BatchProcessor st) = creation_log st"
  "jobId (BatchProcessor st) = jobId st" "submitting (BatchProcessor st) = submitting st"
  "submitError (BatchProcessor st) = submitError st" "inflight (BatchProcessor st) = inflight st"
  "completions (BatchProcessor st) = completions st"
  by (simp_all add: BatchProcessor_def)

lemma step_Resolve:
  "step st (t, Resolve n res) = Some st' \<Longrightarrow>
   st' = BatchProcessor (poll_resume res
           (st\<lparr>now := t, inflight := filter (\<lambda>f. f_id f \<noteq> n) (inflight st)\<rparr>))"
  by (auto simp: step_def dispatch_def split: if_splits)

lemma job_stop: "job (stop st) = job st" "error (stop st) = error st"
  by (simp_all add: stop_def Let_def split: option.splits)

lemma setJobId_closes:
  assumes w: "wf st" and ne: "new \<noteq> jobId st" and s: "s < next_handle st"
  shows "closed_session s (session_fetches s st) (setJobId new st)"
proof -
  let ?s1 = "if truthy (jobId st) then stop st else st"
  have t: "timers ?s1 = []"
    using w stop_clears(1)[OF w] by (auto simp: wf_def split: option.splits)
  have f: "session_fetches s ?s1 = session_fetches s st" "next_handle ?s1 = next_handle st"
    by (simp_all add: session_fetches_def stop_fields)
  have "closed_session s (session_fetches s st) ?s1"
    using t s f by (simp add: closed_session_def)
  then have "closed_session s (session_fetches s st) (?s1\<lparr>jobId := new\<rparr>)"
    by (simp add: closed_session_def session_fetches_def)
  then show ?thesis using ne by (simp add: setJobId_def closed_effect)
qed

section \<open>Creation requests come from clicks only\<close>

lemma creation_log_poll: "creation_log (poll j s st) = creation_log st"
  by (simp add: poll_def Let_def)

lemma creation_log_effect: "creation_log (useJobPoller_effect jid st) = creation_log st"
  by (simp add: useJobPoller_effect_def Let_def poll_def)

lemma creation_log_setJobId: "creation_log (setJobId new st) = creation_log st"
  by (simp add: setJobId_def creation_log_effect stop_fields)

lemma creation_log_tick: "creation_log (tick h st) = creation_log st"
  by (simp add: tick_def creation_log_poll split: option.splits)

lemma creation_log_poll_resume: "creation_log (poll_resume res st) = creation_log st"
  by (simp add: poll_resume_def Let_def stop_fields split: sum.splits)

lemma creation_log_commit_jobId: "creation_log (commit_jobId new st) = creation_log st"
  by (simp add: commit_jobId_def Let_def BatchProcessor_fields creation_log_setJobId)

lemma creation_log_handleProcess_resume:
  "creation_log (handleProcess_resume res st) = creation_log st"
  by (simp add: handleProcess_resume_def BatchProcessor_fields creation_log_commit_jobId
      split: sum.splits)

lemma creation_log_dispatch: "e \<noteq> Click \<Longrightarrow> creation_log (dispatch e st) = creation_log st"
  by (cases e)
     (simp_all add: dispatch_def Let_def BatchProcessor_fields creation_log_handleProcess_resume
        creation_log_tick creation_log_poll_resume handleToggleSelect_def
        handleBatchComplete_def Filters_set_def handleFilterChange_def fetchDocuments_def
        fetchDocuments_resume_def split: sum.splits)

lemma creation_log_run:
  "run st tes = Some st' \<Longrightarrow> list_all (\<lambda>te. snd te \<noteq> Click) tes \<Longrightarrow>
   creation_log st' = creation_log st"
proof (induction tes arbitrary: st)
  case Nil
  then show ?case by simp
next
  case (Cons te tes)
  from Cons.prems obtain s1 where s1: "step st te = Some s1" "run s1 tes = Some st'"
    by (auto split: option.splits)
  have "creation_log s1 = creation_log st"
    using s1(1) Cons.prems(2) by (auto simp: step_def creation_log_dispatch split: if_splits)
  then show ?case using Cons.IH[OF s1(2)] Cons.prems(2) by simp
qed

lemma step_SubmitResult:
  "step st (t, SubmitResult res) = Some st' \<Longrightarrow> st' = handleProcess_resume res (st\<lparr>now := t\<rparr>)"
  by (auto simp: step_def dispatch_def split: if_splits)

section \<open>No callback without a completed job\<close>












section \<open>Fetches start on a fixed period\<close>

lemma periodic_frame:
  assumes "periodic st" "fetch_log st' = fetch_log st" "set (timers st') \<subseteq> set (timers st)"
  shows "periodic st'"
proof -
  have "session_starts s st' = session_starts s st" for s
    using assms(2) by (simp add: session_starts_def session_fetches_def)
  then show ?thesis using assms(1,3) by (auto simp: periodic_def)
qed

lemma timers_stop_subset: "set (timers (stop st)) \<subseteq> set (timers st)"
  by (auto simp: stop_def Let_def split: option.splits)

lemma periodic_stop: "periodic st \<Longrightarrow> periodic (stop st)"
  by (erule periodic_frame) (simp_all add: stop_fields timers_stop_subset)

lemma periodic_BatchProcessor: "periodic st \<Longrightarrow> periodic (BatchProcessor st)"
  by (erule periodic_frame) (simp_all add: BatchProcessor_fields)

lemma session_starts_poll:
  "session_starts s' (poll j s st) =
     (if s' = s then session_starts s st @ [now st] else session_starts s' st)"
  by (simp add: session_starts_def session_fetches_def poll_def Let_def)

lemma arith_snoc:
  assumes "\<forall>k<length xs. xs ! k = xs ! 0 + k * p"
    and "xs \<noteq> [] \<Longrightarrow> x = xs ! 0 + length xs * p"
  shows "\<forall>k<length (xs @ [x]). (xs @ [x]) ! k = (xs @ [x]) ! 0 + k * (p::nat)"
proof (intro allI impI)
  fix k assume k: "k < length (xs @ [x])"
  show "(xs @ [x]) ! k = (xs @ [x]) ! 0 + k * p"
  proof (cases "xs = []")
    case True
    then show ?thesis using k by simp
  next
    case False
    then have z: "(xs @ [x]) ! 0 = xs ! 0" by (simp add: nth_append)
    show ?thesis
    proof (cases "k < length xs")
      case True
      then show ?thesis using assms(1) z by (simp add: nth_append)
    next
      case False
      then have "k = length xs" using k by simp
      then show ?thesis using assms(2)[OF \<open>xs \<noteq> []\<close>] z by simp
    qed
  qed
qed

lemma periodic_effect:
  assumes w: "wf st" and t: "timers st = []" and p: "periodic st"
  shows "periodic (useJobPoller_effect jid st)"
proof (cases "truthy jid")
  case False
  then show ?thesis using p by (simp add: useJobPoller_effect_def)
next
  case True
  let ?h = "next_handle st"
  let ?s1 = "st\<lparr>isPolling := True, error := None, job := None\<rparr>"
  let ?s2 = "poll (the jid) ?h ?s1"
  let ?r = "useJobPoller_effect jid st"
  have fresh: "session_starts ?h st = []"
    using w by (auto simp: wf_def list_all_iff session_starts_def session_fetches_def filter_empty_conv)
  have ss1: "session_starts s ?s1 = session_starts s st" for s
    by (simp add: session_starts_def session_fetches_def)
  have ssr: "session_starts s ?r = (if s = ?h then [now st] else session_starts s st)" for s
  proof -
    have "session_starts s ?r = session_starts s ?s2"
      using True by (simp add: useJobPoller_effect_def Let_def session_starts_def session_fetches_def)
    then show ?thesis using fresh by (simp add: session_starts_poll ss1)
  qed
  have tr: "timers ?r = [\<lparr>t_handle = ?h, t_jobId = the jid, t_due = now st + POLL_INTERVAL_MS\<rparr>]"
    using True t by (simp add: useJobPoller_effect_def Let_def poll_def)
  have A: "\<forall>s k. k < length (session_starts s ?r) \<longrightarrow>
          session_starts s ?r ! k = session_starts s ?r ! 0 + k * POLL_INTERVAL_MS"
    using p by (auto simp: ssr periodic_def)
  show ?thesis unfolding periodic_def using A by (simp add: tr ssr)
qed

lemma periodic_setJobId:
  assumes w: "wf st" and p: "periodic st"
  shows "periodic (setJobId new st)"
proof (cases "new = jobId st")
  case True
  then show ?thesis using p by (simp add: setJobId_def)
next
  case False
  let ?s1 = "if truthy (jobId st) then stop st else st"
  have t: "timers ?s1 = []"
    using w stop_clears(1)[OF w] by (auto simp: wf_def split: option.splits)
  have w1: "wf ?s1" using w wf_stop by simp
  have p1: "periodic ?s1" using p periodic_stop by simp
  have w2: "wf (?s1\<lparr>jobId := new\<rparr>)" using wf_jobId_upd[OF w1 t] .
  have p2: "periodic (?s1\<lparr>jobId := new\<rparr>)" using p1 by (rule periodic_frame) simp_all
  have "periodic (useJobPoller_effect new (?s1\<lparr>jobId := new\<rparr>))"
    using w2 _ p2 by (rule periodic_effect) (simp add: t)
  then show ?thesis using False by (simp add: setJobId_def)
qed

lemma periodic_tick:
  assumes w: "wf st" and p: "periodic st"
    and en: "list_ex (\<lambda>tm. t_handle tm = h \<and> t_due tm = now st) (timers st)"
  shows "periodic (tick h st)"
proof -
  from en obtain tm where tm: "tm \<in> set (timers st)" "t_handle tm = h" "t_due tm = now st"
    by (auto simp: list_ex_iff)
  have single: "timers st = [tm]"
  proof -
    from w have m: "map t_handle (timers st) = (case intervalRef st of None \<Rightarrow> [] | Some h \<Rightarrow> [h])"
      by (simp add: wf_def)
    then obtain x where "timers st = [x]"
      using tm(1) by (cases "timers st"; cases "intervalRef st") auto
    then show ?thesis using tm(1) by simp
  qed
  let ?tm' = "tm\<lparr>t_due := t_due tm + POLL_INTERVAL_MS\<rparr>"
  let ?s1 = "st\<lparr>timers := [?tm']\<rparr>"
  have e: "tick h st = poll (t_jobId tm) h ?s1"
    using single tm(2) by (simp add: tick_def)
  have ss: "session_starts s (tick h st) =
              (if s = h then session_starts h st @ [now st] else session_starts s st)" for s
    by (simp add: e session_starts_poll) (simp add: session_starts_def session_fetches_def)
  have B: "session_starts h st \<noteq> []"
          "now st = session_starts h st ! 0 + length (session_starts h st) * POLL_INTERVAL_MS"
    using p tm by (auto simp: periodic_def)
  have A0: "\<forall>k<length (session_starts h st).
              session_starts h st ! k = session_starts h st ! 0 + k * POLL_INTERVAL_MS"
    using p by (simp add: periodic_def)
  have A1: "\<forall>k<length (session_starts h st @ [now st]).
              (session_starts h st @ [now st]) ! k =
              (session_starts h st @ [now st]) ! 0 + k * POLL_INTERVAL_MS"
    using A0 B(2) by (rule arith_snoc)
  have A: "\<forall>s k. k < length (session_starts s (tick h st)) \<longrightarrow>
          session_starts s (tick h st) ! k = session_starts s (tick h st) ! 0 + k * POLL_INTERVAL_MS"
  proof (intro allI impI)
    fix s k assume k: "k < length (session_starts s (tick h st))"
    show "session_starts s (tick h st) ! k = session_starts s (tick h st) ! 0 + k * POLL_INTERVAL_MS"
    proof (cases "s = h")
      case True
      then have e1: "session_starts s (tick h st) = session_starts h st @ [now st]"
        by (simp add: ss)
      show ?thesis using A1 k unfolding e1 by blast
    next
      case False
      then have e2: "session_starts s (tick h st) = session_starts s st" by (simp add: ss)
      have "\<forall>k<length (session_starts s st).
              session_starts s st ! k = session_starts s st ! 0 + k * POLL_INTERVAL_MS"
        using p by (simp add: periodic_def)
      then show ?thesis using k unfolding e2 by blast
    qed
  qed
  have tt: "timers (tick h st) = [?tm']" by (simp add: e poll_def Let_def)
  have z: "(session_starts h st @ [v]) ! 0 = session_starts h st ! 0" for v
    using B(1) by (simp add: nth_append)
  have eh: "session_starts h (tick h st) = session_starts h st @ [now st]" by (simp add: ss)
  have Bn: "\<forall>x \<in> set (timers (tick h st)).
          session_starts (t_handle x) (tick h st) \<noteq> [] \<and>
          t_due x = session_starts (t_handle x) (tick h st) ! 0 +
                     length (session_starts (t_handle x) (tick h st)) * POLL_INTERVAL_MS"
    using B(2) by (simp add: tt tm(2,3) eh z)
  show ?thesis unfolding periodic_def using A Bn by blast
qed

lemma periodic_poll_resume: "periodic st \<Longrightarrow> periodic (poll_resume res st)"
proof -
  assume p: "periodic st"
  have a: "\<And>d. periodic (st\<lparr>job := Some d\<rparr>)" using p by (rule periodic_frame) simp_all
  have b: "\<And>m. periodic (st\<lparr>error := Some m\<rparr>)" using p by (rule periodic_frame) simp_all
  show ?thesis by (auto simp: poll_resume_def Let_def a b periodic_stop split: sum.splits)
qed

lemma periodic_commit_jobId: "wf st \<Longrightarrow> periodic st \<Longrightarrow> periodic (commit_jobId new st)"
proof -
  assume w: "wf st" and p: "periodic st"
  have "periodic (setJobId new (BatchProcessor st))"
    using wf_BatchProcessor[OF w] periodic_BatchProcessor[OF p] by (rule periodic_setJobId)
  then show ?thesis by (simp add: commit_jobId_def Let_def periodic_BatchProcessor)
qed

lemma periodic_handleProcess: "wf st \<Longrightarrow> periodic st \<Longrightarrow> periodic (handleProcess st)"
proof -
  assume w: "wf st" and p: "periodic st"
  let ?s = "st\<lparr>submitting := True, submitError := None,
                 creation_log := creation_log st @ [selectedIds st],
                 creation_pending := creation_pending st + 1\<rparr>"
  have "wf ?s" using w by (simp add: wf_def)
  moreover have "periodic ?s" using p by (rule periodic_frame) simp_all
  ultimately have "periodic (commit_jobId None ?s)" by (rule periodic_commit_jobId)
  then show ?thesis using p by (simp add: handleProcess_def)
qed

lemma periodic_handleProcess_resume:
  "wf st \<Longrightarrow> periodic st \<Longrightarrow> periodic (handleProcess_resume res st)"
proof -
  assume w: "wf st" and p: "periodic st"
  let ?a = "st\<lparr>submitting := False, creation_pending := creation_pending st - 1\<rparr>"
  have wa: "wf ?a" using w by (simp add: wf_def)
  have pa: "periodic ?a" using p by (rule periodic_frame) simp_all
  have b0: "\<And>m. periodic (st\<lparr>submitError := Some m, submitting := False,
                       creation_pending := creation_pending st - 1\<rparr>)"
    using p by (rule periodic_frame) simp_all
  have b: "\<And>m. periodic (BatchProcessor (st\<lparr>submitError := Some m, submitting := False,
                       creation_pending := creation_pending st - 1\<rparr>))"
    using b0 by (rule periodic_BatchProcessor)
  show ?thesis
    using periodic_commit_jobId[OF wa pa] b
    by (simp add: handleProcess_resume_def split: sum.splits)
qed

lemma periodic_step:
  assumes w: "wf st" and p: "periodic st" and s: "step st te = Some st'"
  shows "periodic st'"
proof -
  obtain t e where te: "te = (t, e)" by (cases te)
  let ?s = "st\<lparr>now := t\<rparr>"
  have w0: "wf ?s" using w by (simp add: wf_def)
  have p0: "periodic ?s" using p by (rule periodic_frame) simp_all
  have en: "enabled st t e" and d: "st' = dispatch e ?s"
    using s te by (auto simp: step_def split: if_splits)
  show ?thesis
  proof (cases e)
    case (Toggle x)
    have "periodic (handleToggleSelect x ?s)"
      using p0 by (rule periodic_frame) (simp_all add: handleToggleSelect_def)
    then show ?thesis using Toggle d by (simp add: dispatch_def periodic_BatchProcessor)
  next
    case (FilterChange k v)
    have "periodic (Filters_set k v ?s)"
      using p0 by (rule periodic_frame) (simp_all add: Filters_set_def handleFilterChange_def)
    then have a: "periodic (BatchProcessor (Filters_set k v ?s))" by (rule periodic_BatchProcessor)
    then have "periodic (fetchDocuments (BatchProcessor (Filters_set k v ?s)))"
      by (rule periodic_frame) (simp_all add: fetchDocuments_def)
    then show ?thesis using FilterChange d
      by (simp add: dispatch_def Let_def periodic_BatchProcessor)
  next
    case Click
    then show ?thesis using d w0 p0 by (simp add: dispatch_def onClick_def periodic_handleProcess)
  next
    case (SubmitResult r)
    then show ?thesis using d w0 p0 by (simp add: dispatch_def periodic_handleProcess_resume)
  next
    case (Tick h)
    have "list_ex (\<lambda>tm. t_handle tm = h \<and> t_due tm = now ?s) (timers ?s)"
      using en Tick by (simp add: enabled_def)
    then have "periodic (tick h ?s)" using w0 p0 periodic_tick by blast
    then show ?thesis using Tick d by (simp add: dispatch_def)
  next
    case (Resolve k r)
    have "periodic (?s\<lparr>inflight := filter (\<lambda>f. f_id f \<noteq> k) (inflight ?s)\<rparr>)"
      using p0 by (rule periodic_frame) simp_all
    then show ?thesis using Resolve d
      by (simp add: dispatch_def periodic_BatchProcessor periodic_poll_resume)
  next
    case Timeout
    have "periodic (handleBatchComplete
               (?s\<lparr>timeouts := timeouts ?s - 1, completions := completions ?s + 1\<rparr>))"
      using p0 by (rule periodic_frame) (simp_all add: handleBatchComplete_def fetchDocuments_def)
    then show ?thesis using Timeout d by (simp add: dispatch_def periodic_BatchProcessor)
  next
    case (DocsResult r)
    have "periodic (fetchDocuments_resume r ?s)"
      using p0 by (rule periodic_frame) (simp_all add: fetchDocuments_resume_def split: sum.splits)
    then show ?thesis using DocsResult d
      by (simp add: dispatch_def Let_def periodic_BatchProcessor)
  qed
qed

lemma periodic_run:
  "wf st \<Longrightarrow> periodic st \<Longrightarrow> run st tes = Some st' \<Longrightarrow> periodic st'"
proof (induction tes arbitrary: st)
  case Nil
  then show ?case by simp
next
  case (Cons te tes)
  from Cons.prems obtain s1 where s1: "step st te = Some s1" "run s1 tes = Some st'"
    by (auto split: option.splits)
  show ?case
    using Cons.IH[OF wf_step[OF Cons.prems(1) s1(1)] periodic_step[OF Cons.prems(1,2) s1(1)] s1(2)] .
qed

lemma periodic_init: "periodic init"
  by (simp add: periodic_def init_def session_starts_def session_fetches_def)

lemma effect_first_fetch:
  assumes w: "wf st" and j: "j \<noteq> []" and ne: "jobId st \<noteq> Some j"
  shows "session_starts (next_handle st) (setJobId (Some j) st) = [now st] \<and>
         timers (setJobId (Some j) st) =
           [\<lparr>t_handle = next_handle st, t_jobId = j, t_due = now st + POLL_INTERVAL_MS\<rparr>]"
proof -
  let ?s1 = "(if truthy (jobId st) then stop st else st)\<lparr>jobId := Some j\<rparr>"
  have t: "timers ?s1 = []"
    using w stop_clears(1)[OF w] by (auto simp: wf_def split: option.splits)
  have f: "fetch_log ?s1 = fetch_log st" "next_handle ?s1 = next_handle st" "now ?s1 = now st"
    by (simp_all add: stop_fields)
  have fresh: "filter (\<lambda>f. f_session f = next_handle st) (fetch_log st) = []"
    using w by (auto simp: wf_def list_all_iff filter_empty_conv)
  have e: "setJobId (Some j) st = useJobPoller_effect (Some j) ?s1"
    using ne by (auto simp: setJobId_def)
  show ?thesis unfolding e using j t f fresh
    by (simp add: useJobPoller_effect_def truthy_def Let_def poll_def session_starts_def
        session_fetches_def)
qed

section \<open>Running the scenarios\<close>

lemmas handler_defs =
  step_def enabled_def dispatch_def handleToggleSelect_def BatchProcessor_def isCompleted_def
  onClick_def disabled_def handleProcess_def commit_jobId_def fetchDocuments_resume_def setJobId_def handleProcess_resume_def request_def
  useJobPoller_effect_def truthy_def poll_def poll_resume_def stop_def tick_def
  TERMINAL_STATES_def handleBatchComplete_def fetchDocuments_def POLL_INTERVAL_MS_def Let_def

lemma run_polling_j1: "run init polling_j1 = Some st_polling"
  by (simp add: polling_j1_def st_polling_def init_def handler_defs)

lemma run_append:
  "run st (xs @ ys) = (case run st xs of None \<Rightarrow> None | Some s \<Rightarrow> run s ys)"
  by (induction xs arbitrary: st) (auto split: option.splits)

lemmas scenario_simps =
  run_append run_polling_j1 st_polling_def j1_is_def handler_defs

section \<open>Submission in flight\<close>

lemma sub_poll:
  "submitting (poll j s st) = submitting st" "creation_pending (poll j s st) = creation_pending st"
  "jobId (poll j s st) = jobId st"
  by (simp_all add: poll_def Let_def)

lemma sub_effect:
  "submitting (useJobPoller_effect jid st) = submitting st"
  "creation_pending (useJobPoller_effect jid st) = creation_pending st"
  "jobId (useJobPoller_effect jid st) = jobId st"
  by (simp_all add: useJobPoller_effect_def Let_def poll_def)

lemma sub_setJobId:
  "submitting (setJobId new st) = submitting st"
  "creation_pending (setJobId new st) = creation_pending st"
  "jobId (setJobId new st) = new"
  by (simp_all add: setJobId_def sub_effect stop_fields)

lemma sub_tick: "submission_inv st \<Longrightarrow> submission_inv (tick h st)"
  by (simp add: submission_inv_def tick_def sub_poll split: option.splits)

lemma sub_poll_resume: "submission_inv st \<Longrightarrow> submission_inv (poll_resume res st)"
  by (simp add: submission_inv_def poll_resume_def Let_def stop_fields split: sum.splits)

lemma sub_BatchProcessor: "submission_inv st \<Longrightarrow> submission_inv (BatchProcessor st)"
  by (simp add: submission_inv_def BatchProcessor_def)

lemma sub_commit_jobId:
  "submitting (commit_jobId new st) = submitting st"
  "creation_pending (commit_jobId new st) = creation_pending st"
  "jobId (commit_jobId new st) = new"
  by (simp_all add: commit_jobId_def Let_def sub_setJobId BatchProcessor_def)

lemma sub_onClick: "submission_inv st \<Longrightarrow> submission_inv (onClick st)"
proof -
  assume i: "submission_inv st"
  show ?thesis
  proof (cases "disabled st \<or> selectedIds st = []")
    case True
    then show ?thesis using i by (auto simp: onClick_def handleProcess_def)
  next
    case False
    then have n: "\<not> submitting st" by (simp add: disabled_def)
    let ?s = "st\<lparr>submitting := True, submitError := None,
                 creation_log := creation_log st @ [selectedIds st],
                 creation_pending := creation_pending st + 1\<rparr>"
    have "submission_inv (commit_jobId None ?s)"
      using i n by (simp add: submission_inv_def sub_commit_jobId)
    then show ?thesis using False by (simp add: onClick_def handleProcess_def)
  qed
qed

lemma sub_handleProcess_resume:
  "submission_inv st \<Longrightarrow> submission_inv (handleProcess_resume res st)"
  by (simp add: submission_inv_def handleProcess_resume_def sub_commit_jobId BatchProcessor_def
      split: sum.splits)

lemma sub_step: "submission_inv st \<Longrightarrow> step st te = Some st' \<Longrightarrow> submission_inv st'"
proof -
  assume i: "submission_inv st" and s: "step st te = Some st'"
  obtain t e where te: "te = (t, e)" by (cases te)
  let ?s = "st\<lparr>now := t\<rparr>"
  have i0: "submission_inv ?s" using i by (simp add: submission_inv_def)
  have d: "st' = dispatch e ?s" using s te by (auto simp: step_def split: if_splits)
  show ?thesis
  proof (cases e)
    case (Toggle x)
    have "submission_inv (handleToggleSelect x ?s)"
      using i0 by (simp add: submission_inv_def handleToggleSelect_def)
    then show ?thesis using Toggle d by (simp add: dispatch_def sub_BatchProcessor)
  next
    case (FilterChange k v)
    have "submission_inv (Filters_set k v ?s)"
      using i0 by (simp add: submission_inv_def Filters_set_def handleFilterChange_def)
    then have "submission_inv (BatchProcessor (Filters_set k v ?s))" by (rule sub_BatchProcessor)
    then have "submission_inv (fetchDocuments (BatchProcessor (Filters_set k v ?s)))"
      by (simp add: submission_inv_def fetchDocuments_def)
    then show ?thesis using FilterChange d by (simp add: dispatch_def Let_def sub_BatchProcessor)
  next
    case Click
    then show ?thesis using d i0 by (simp add: dispatch_def sub_onClick)
  next
    case (SubmitResult r)
    then show ?thesis using d i0 by (simp add: dispatch_def sub_handleProcess_resume)
  next
    case (Tick h)
    then show ?thesis using d i0 by (simp add: dispatch_def sub_tick)
  next
    case (Resolve k r)
    have "submission_inv (?s\<lparr>inflight := filter (\<lambda>f. f_id f \<noteq> k) (inflight ?s)\<rparr>)"
      using i0 by (simp add: submission_inv_def)
    then show ?thesis using Resolve d
      by (simp add: dispatch_def sub_BatchProcessor sub_poll_resume)
  next
    case Timeout
    have "submission_inv (handleBatchComplete
               (?s\<lparr>timeouts := timeouts ?s - 1, completions := completions ?s + 1\<rparr>))"
      using i0 by (simp add: submission_inv_def handleBatchComplete_def fetchDocuments_def)
    then show ?thesis using Timeout d by (simp add: dispatch_def sub_BatchProcessor)
  next
    case (DocsResult r)
    have "submission_inv (fetchDocuments_resume r ?s)"
      using i0 by (simp add: submission_inv_def fetchDocuments_resume_def split: sum.splits)
    then show ?thesis using DocsResult d by (simp add: dispatch_def Let_def sub_BatchProcessor)
  qed
qed

lemma sub_run: "submission_inv st \<Longrightarrow> run st tes = Some st' \<Longrightarrow> submission_inv st'"
proof (induction tes arbitrary: st)
  case Nil
  then show ?case by simp
next
  case (Cons te tes)
  then show ?case by (auto split: option.splits dest: sub_step)
qed

lemma sub_init: "submission_inv init"
  by (simp add: submission_inv_def init_def)

section \<open>The selection set\<close>

text \<open>
  Claim C10. \<open>handleToggleSelect d\<close> puts \<open>d\<close> into the selection exactly when it was
  absent and takes it out exactly when it was present, changes the membership of no other
  id, and applied twice gives back the selection it started from, as a set. (The
  iteration order of the JavaScript \<open>Set\<close> is not part of the claim: an id taken out and
  put back moves to the end.) A selection without duplicates stays so.
\<close>

theorem C10_toggle_involution:
  "(d \<in> set (selectedIds (handleToggleSelect d st))) = (d \<notin> set (selectedIds st)) \<and>
   (e \<noteq> d \<longrightarrow> (e \<in> set (selectedIds (handleToggleSelect d st))) = (e \<in> set (selectedIds st))) \<and>
   set (selectedIds (handleToggleSelect d (handleToggleSelect d st))) = set (selectedIds st) \<and>
   (distinct (selectedIds st) \<longrightarrow> distinct (selectedIds (handleToggleSelect d st)))"
  by (auto simp: handleToggleSelect_def Let_def distinct_removeAll)

theorem C10_witness:
  "''d2'' \<noteq> ''d1'' \<and> distinct [''d1'', ''d2''] \<and>
   selectedIds (handleToggleSelect ''d1'' (init\<lparr>selectedIds := [''d1'', ''d2'']\<rparr>)) = [''d2''] \<and>
   set (selectedIds (handleToggleSelect ''d1''
          (handleToggleSelect ''d1'' (init\<lparr>selectedIds := [''d1'', ''d2'']\<rparr>)))) = {''d1'', ''d2''}"
  using C10_toggle_involution [of "''d1''" "init\<lparr>selectedIds := [''d1'', ''d2'']\<rparr>" "''d2''"]
  by (auto simp: handleToggleSelect_def Let_def init_def)

text \<open>
  Claim C9. \<open>handleFilterChange\<close>, which every input of \<open>Filters\<close> calls through
  \<open>onChange\<close>, stores the new filters and empties the selection in the same state
  transition; and whatever the event, a step that changes the filters leaves the
  selection empty.
\<close>

theorem C9_filter_change_clears_selection:
  "selectedIds (handleFilterChange newFilters st) = [] \<and>
   filters (handleFilterChange newFilters st) = newFilters \<and>
   selectedIds (Filters_set key v st) = [] \<and>
   filters (Filters_set key v st) = AList.update key v (filters st) \<and>
   (step st (t, e) = Some st' \<and> filters st' \<noteq> filters st \<longrightarrow> selectedIds st' = [])"
proof -
  have "selectedIds st' = []" if s: "step st (t, e) = Some st'" and f: "filters st' \<noteq> filters st"
  proof -
    have d: "st' = dispatch e (st\<lparr>now := t\<rparr>)" using s by (simp add: step_def split: if_splits)
    then obtain key v where e: "e = FilterChange key v"
      using f by (cases e) (simp_all add: filters_dispatch)
    show ?thesis unfolding d e
      by (simp add: dispatch_def Let_def filters_BatchProcessor Filters_set_def
          handleFilterChange_def fetchDocuments_def)
  qed
  then show ?thesis by (simp add: Filters_set_def handleFilterChange_def fetchDocuments_def)
qed

theorem C9_witness:
  "step (handleToggleSelect ''d1'' init) (5, FilterChange ''status'' ''draft'') \<noteq> None \<and>
   filters (the (step (handleToggleSelect ''d1'' init) (5, FilterChange ''status'' ''draft'')))
     \<noteq> filters (handleToggleSelect ''d1'' init) \<and>
   selectedIds (handleToggleSelect ''d1'' init) = [''d1''] \<and>
   selectedIds (the (step (handleToggleSelect ''d1'' init) (5, FilterChange ''status'' ''draft''))) = []"
  using C9_filter_change_clears_selection
    [of _ "handleToggleSelect ''d1'' init" _ _ 5 "FilterChange ''status'' ''draft''"
        "the (step (handleToggleSelect ''d1'' init) (5, FilterChange ''status'' ''draft''))"]
  by (simp add: step_def enabled_def dispatch_def Filters_set_def handleFilterChange_def fetchDocuments_def
      handleToggleSelect_def init_def INITIAL_FILTERS_def BatchProcessor_def isCompleted_def)

section \<open>Submission\<close>

text \<open>
  Claim C8. With an empty selection \<open>handleProcess\<close> returns at once: the state is the
  same, so no creation request went out and nothing changed; a click on the button does
  the same, the event only moving the clock.
\<close>

theorem C8_empty_selection_noop:
  assumes "selectedIds st = []"
  shows "handleProcess st = st \<and> onClick st = st \<and> dispatch Click st = st \<and>
         (enabled st t Click \<longrightarrow> step st (t, Click) = Some (st\<lparr>now := t\<rparr>))"
  using assms by (simp add: handleProcess_def onClick_def dispatch_def step_def)

theorem C8_witness:
  "selectedIds init = [] \<and> enabled init 7 Click \<and> handleProcess init = init \<and>
   step init (7, Click) = Some (init\<lparr>now := 7\<rparr>) \<and> creation_log (init\<lparr>now := 7\<rparr>) = []"
  using C8_empty_selection_noop [of init 7]
  by (simp add: init_def enabled_def)

text \<open>
  Claim C4, as stated, fails. The button is gated by \<open>submitting\<close> and \<open>isPolling\<close>, not
  by the status of the job: the first poll answers \<open>processing\<close>, the second fails in
  transport, polling stops with the job shown still \<open>processing\<close>, and the next click
  goes through: a second creation request is issued.
\<close>

theorem C4_counterexample:
  "run init (polling_j1 @ [(300, Resolve 0 (OkJson (j1_is ''processing''))), (2060, Tick 1),
      (2100, Resolve 1 (Rejected ''Failed to fetch'')), (3000, Click)]) \<noteq> None \<and>
   job (the (run init (polling_j1 @ [(300, Resolve 0 (OkJson (j1_is ''processing''))), (2060, Tick 1),
      (2100, Resolve 1 (Rejected ''Failed to fetch''))]))) = Some (j1_is ''processing'') \<and>
   creation_log (the (run init (polling_j1 @ [(300, Resolve 0 (OkJson (j1_is ''processing''))), (2060, Tick 1),
      (2100, Resolve 1 (Rejected ''Failed to fetch''))]))) = [[''d1'', ''d2'']] \<and>
   creation_log (the (run init (polling_j1 @ [(300, Resolve 0 (OkJson (j1_is ''processing''))), (2060, Tick 1),
      (2100, Resolve 1 (Rejected ''Failed to fetch'')), (3000, Click)])))
     = [[''d1'', ''d2''], [''d1'', ''d2'']] \<and>
   submitting (the (run init (polling_j1 @ [(300, Resolve 0 (OkJson (j1_is ''processing''))), (2060, Tick 1),
      (2100, Resolve 1 (Rejected ''Failed to fetch'')), (3000, Click)])))"
  by (simp add: scenario_simps)

text \<open>
  Claim C4, amended. In every reachable state in which the poller is polling (which holds
  as long as its interval is armed) or a creation call awaits its response, a click is
  refused: the state is unchanged, so no creation request is issued.
\<close>

theorem C4_submit_refused_while_polling:
  assumes "run init tes = Some st"
    and "isPolling st \<or> submitting st \<or> intervalRef st \<noteq> None \<or> timers st \<noteq> []"
  shows "onClick st = st \<and> dispatch Click st = st \<and>
         (enabled st t Click \<longrightarrow> step st (t, Click) = Some (st\<lparr>now := t\<rparr>))"
proof -
  have w: "wf st" using wf_run[OF wf_init assms(1)] .
  have "isPolling st \<or> submitting st"
    using assms(2) w by (auto simp: wf_def split: option.splits)
  then have d: "disabled (st\<lparr>now := t\<rparr>)" "disabled st" by (auto simp: disabled_def)
  show ?thesis using d by (simp add: onClick_def dispatch_def step_def)
qed

theorem C4_witness:
  "run init polling_j1 = Some st_polling \<and> isPolling st_polling \<and>
   job st_polling = None \<and> enabled st_polling 100 Click \<and>
   onClick st_polling = st_polling \<and>
   step st_polling (100, Click) = Some (st_polling\<lparr>now := 100\<rparr>)"
proof -
  have p: "isPolling st_polling" "job st_polling = None" by (simp_all add: st_polling_def)
  then have h: "isPolling st_polling \<or> submitting st_polling \<or> intervalRef st_polling \<noteq> None \<or>
                timers st_polling \<noteq> []" by simp
  have e: "enabled st_polling 100 Click" by (simp add: st_polling_def enabled_def)
  show ?thesis
    using C4_submit_refused_while_polling[OF run_polling_j1 h, of 100] e p run_polling_j1
    by blast
qed

section \<open>The poller\<close>

text \<open>
  Claim C5. When a status fetch succeeds with a terminal status, the poller stops: the
  job is stored, \<open>isPolling\<close> is false, \<open>intervalRef\<close> is empty and no interval is
  armed; the session of every fetch in flight has begun, and whatever happens afterwards
  no session begun so far issues another fetch.
\<close>

theorem C5_terminal_status_stops_polling:
  assumes "run init tes = Some st"
    and "step st (t, Resolve n (OkJson d)) = Some st'"
    and "status d \<in> TERMINAL_STATES"
  shows "job st' = Some d \<and> isPolling st' = False \<and> intervalRef st' = None \<and> timers st' = [] \<and>
         (\<forall>f \<in> set (inflight st). f_session f < next_handle st') \<and>
         (\<forall>tes' st'' s. run st' tes' = Some st'' \<and> s < next_handle st' \<longrightarrow>
             session_fetches s st'' = session_fetches s st')"
proof -
  have w: "wf st" using wf_run[OF wf_init assms(1)] .
  let ?s0 = "st\<lparr>now := t, inflight := filter (\<lambda>f. f_id f \<noteq> n) (inflight st)\<rparr>"
  let ?s1 = "?s0\<lparr>job := Some d\<rparr>"
  have w1: "wf ?s1" using w by (auto simp: wf_def)
  have e: "st' = BatchProcessor (stop ?s1)"
    using step_Resolve[OF assms(2)] assms(3) by (simp add: poll_resume_def request_def Let_def)
  have t: "timers st' = []" "intervalRef st' = None" "isPolling st' = False"
    using stop_clears[OF w1] by (simp_all add: e BatchProcessor_fields)
  have j: "job st' = Some d" by (simp add: e BatchProcessor_fields stop_fields)
  have nh: "next_handle st' = next_handle st" by (simp add: e BatchProcessor_fields stop_fields)
  have i: "\<forall>f \<in> set (inflight st). f_session f < next_handle st'"
    using w unfolding nh by (auto simp: wf_def list_all_iff)
  have q: "\<forall>tes' st'' s. run st' tes' = Some st'' \<and> s < next_handle st' \<longrightarrow>
             session_fetches s st'' = session_fetches s st'"
    using quiet_after[OF t(1)] by blast
  show ?thesis using t j i q by simp
qed

theorem C5_witness:
  "run init polling_j1 = Some st_polling \<and>
   step st_polling (300, Resolve 0 (OkJson (j1_is ''completed''))) \<noteq> None \<and>
   status (j1_is ''completed'') \<in> TERMINAL_STATES \<and>
   timers st_polling \<noteq> [] \<and>
   timers (the (step st_polling (300, Resolve 0 (OkJson (j1_is ''completed''))))) = [] \<and>
   isPolling (the (step st_polling (300, Resolve 0 (OkJson (j1_is ''completed''))))) = False \<and>
   run (the (step st_polling (300, Resolve 0 (OkJson (j1_is ''completed'')))))
       [(2060, Toggle ''d3''), (2070, Timeout)] \<noteq> None \<and>
   session_fetches 1 (the (run (the (step st_polling (300, Resolve 0 (OkJson (j1_is ''completed'')))))
       [(2060, Toggle ''d3''), (2070, Timeout)]))
     = session_fetches 1 (the (step st_polling (300, Resolve 0 (OkJson (j1_is ''completed'')))))"
proof -
  let ?S' = "the (step st_polling (300, Resolve 0 (OkJson (j1_is ''completed''))))"
  let ?S'' = "the (run ?S' [(2060, Toggle ''d3''), (2070, Timeout)])"
  have s: "step st_polling (300, Resolve 0 (OkJson (j1_is ''completed''))) = Some ?S'"
    by (simp add: scenario_simps)
  have k: "status (j1_is ''completed'') \<in> TERMINAL_STATES"
    by (simp add: j1_is_def TERMINAL_STATES_def)
  have c: "run ?S' [(2060, Toggle ''d3''), (2070, Timeout)] = Some ?S''"
    by (simp add: scenario_simps)
  have n: "(1::nat) < next_handle ?S'" by (simp add: scenario_simps)
  have s': "step st_polling (300, Resolve 0 (OkJson (j1_is ''completed''))) \<noteq> None"
    by (simp add: scenario_simps)
  have c': "run ?S' [(2060, Toggle ''d3''), (2070, Timeout)] \<noteq> None"
    by (simp add: scenario_simps)
  have t0: "timers st_polling \<noteq> []" by (simp add: st_polling_def)
  have "session_fetches 1 ?S'' = session_fetches 1 ?S'" "timers ?S' = []" "isPolling ?S' = False"
    using C5_terminal_status_stops_polling[OF run_polling_j1 s k] c n by blast+
  then show ?thesis using run_polling_j1 s' k c' t0 by blast
qed

text \<open>
  Claim C3, as stated, fails. The interval fires one period after the session began
  whether or not the first fetch has settled: two fetches of session 1 are then in flight
  together. And when the first fetch settles at 300 ms the next one starts at 2060 ms,
  one period after the first started; with the interval firing when it is due, it does
  not start at 2300 ms, one period after the first ended.
\<close>

theorem C3_counterexample:
  "run init (polling_j1 @ [(2060, Tick 1)]) \<noteq> None \<and>
   map f_session (inflight (the (run init (polling_j1 @ [(2060, Tick 1)])))) = [1, 1] \<and>
   map f_started (inflight (the (run init (polling_j1 @ [(2060, Tick 1)])))) = [60, 2060] \<and>
   run init (polling_j1 @ [(300, Resolve 0 (OkJson (j1_is ''processing''))), (2060, Tick 1)]) \<noteq> None \<and>
   run init (polling_j1 @ [(300, Resolve 0 (OkJson (j1_is ''processing''))), (2300, Tick 1)]) = None"
  by (simp add: scenario_simps)

text \<open>
  Claim C3, amended. The interval is taken to fire at its nominal due times. Within a
  session the fetches then start on a fixed period measured from start to start: the
  \<open>k\<close>-th fetch starts \<open>k\<close> times 2000 ms after the first; the first is issued when the
  session begins, with no delay; and every expiry of the interval, which comes when the
  interval is due, issues a fetch at that moment whether or not earlier fetches have
  settled: the fetches in flight stay in flight and the new one joins them.
\<close>

theorem C3_fetches_start_on_a_fixed_period:
  assumes "run init tes = Some st"
  shows "(\<forall>s k. k < length (session_starts s st) \<longrightarrow>
            session_starts s st ! k = session_starts s st ! 0 + k * POLL_INTERVAL_MS) \<and>
         (j \<noteq> [] \<and> jobId st \<noteq> Some j \<longrightarrow>
            session_starts (next_handle st) (setJobId (Some j) st) = [now st]) \<and>
         (\<forall>h. enabled st t (Tick h) \<longrightarrow>
            (\<exists>tm. tm \<in> set (timers st) \<and> t_handle tm = h \<and> t_due tm = t) \<and>
            (\<exists>st' f. step st (t, Tick h) = Some st' \<and>
                   session_starts h st' = session_starts h st @ [t] \<and>
                   inflight st' = inflight st @ [f] \<and> f_session f = h \<and> f_started f = t))"
proof -
  have w: "wf st" using wf_run[OF wf_init assms] .
  have p: "periodic st" using periodic_run[OF wf_init periodic_init assms] .
  have a: "\<forall>s k. k < length (session_starts s st) \<longrightarrow>
            session_starts s st ! k = session_starts s st ! 0 + k * POLL_INTERVAL_MS"
    using p by (simp add: periodic_def)
  have b: "j \<noteq> [] \<and> jobId st \<noteq> Some j \<longrightarrow>
            session_starts (next_handle st) (setJobId (Some j) st) = [now st]"
    using effect_first_fetch[OF w] by blast
  have c: "(\<exists>tm. tm \<in> set (timers st) \<and> t_handle tm = h \<and> t_due tm = t) \<and>
           (\<exists>st' f. step st (t, Tick h) = Some st' \<and>
                   session_starts h st' = session_starts h st @ [t] \<and>
                   inflight st' = inflight st @ [f] \<and> f_session f = h \<and> f_started f = t)"
    if en: "enabled st t (Tick h)" for h
  proof -
    from en obtain tm where tm: "tm \<in> set (timers st)" "t_handle tm = h" "t_due tm = t"
      by (auto simp: enabled_def list_ex_iff)
    then obtain tm' where f: "find (\<lambda>tm. t_handle tm = h) (timers st) = Some tm'"
      by (cases "find (\<lambda>tm. t_handle tm = h) (timers st)") (auto simp: find_None_iff)
    let ?st' = "dispatch (Tick h) (st\<lparr>now := t\<rparr>)"
    let ?f = "\<lparr>f_id = length (fetch_log st), f_jobId = t_jobId tm', f_session = h, f_started = t\<rparr>"
    have x: "session_starts h ?st' = session_starts h st @ [t]"
      using f by (simp add: dispatch_def tick_def session_starts_poll)
                 (simp add: session_starts_def session_fetches_def)
    have y: "inflight ?st' = inflight st @ [?f]"
      using f by (simp add: dispatch_def tick_def poll_def Let_def)
    have z: "step st (t, Tick h) = Some ?st'" using en by (simp add: step_def)
    have "\<exists>st' f. step st (t, Tick h) = Some st' \<and>
                   session_starts h st' = session_starts h st @ [t] \<and>
                   inflight st' = inflight st @ [f] \<and> f_session f = h \<and> f_started f = t"
      using x y z by (intro exI[of _ ?st'] exI[of _ ?f]) simp
    then show ?thesis using tm by blast
  qed
  show ?thesis using a b c by blast
qed

theorem C3_witness:
  "run init (polling_j1 @ [(2060, Tick 1), (4060, Tick 1)]) \<noteq> None \<and>
   session_starts 1 (the (run init (polling_j1 @ [(2060, Tick 1), (4060, Tick 1)]))) = [60, 2060, 4060] \<and>
   (2::nat) < length (session_starts 1 (the (run init (polling_j1 @ [(2060, Tick 1), (4060, Tick 1)])))) \<and>
   session_starts 1 (the (run init (polling_j1 @ [(2060, Tick 1), (4060, Tick 1)]))) ! 2
     = session_starts 1 (the (run init (polling_j1 @ [(2060, Tick 1), (4060, Tick 1)]))) ! 0 + 2 * POLL_INTERVAL_MS \<and>
   run init polling_j1 = Some st_polling \<and> enabled st_polling 2060 (Tick 1) \<and>
   length (inflight st_polling) = 1 \<and>
   length (inflight (the (step st_polling (2060, Tick 1)))) = 2"
proof -
  let ?S = "the (run init (polling_j1 @ [(2060, Tick 1), (4060, Tick 1)]))"
  have r: "run init (polling_j1 @ [(2060, Tick 1), (4060, Tick 1)]) = Some ?S"
    by (simp add: scenario_simps)
  have r': "run init (polling_j1 @ [(2060, Tick 1), (4060, Tick 1)]) \<noteq> None"
    by (simp add: scenario_simps)
  have v: "session_starts 1 ?S = [60, 2060, 4060]"
    by (simp add: session_starts_def session_fetches_def scenario_simps)
  have l: "(2::nat) < length (session_starts 1 ?S)" by (simp only: v) simp
  have k: "session_starts 1 ?S ! 2 = session_starts 1 ?S ! 0 + 2 * POLL_INTERVAL_MS"
    using C3_fetches_start_on_a_fixed_period[OF r] l by blast
  have en: "enabled st_polling 2060 (Tick 1)" by (simp add: st_polling_def enabled_def)
  have one: "length (inflight st_polling) = 1" by (simp add: st_polling_def)
  obtain st' f where "step st_polling (2060, Tick 1) = Some st'"
      "inflight st' = inflight st_polling @ [f]"
    using C3_fetches_start_on_a_fixed_period[OF run_polling_j1, of _ 2060] en by blast
  then have two: "length (inflight (the (step st_polling (2060, Tick 1)))) = 2"
    using one by simp
  show ?thesis using r' v l k run_polling_j1 en one two by blast
qed

text \<open>
  Claim C2, as stated, fails in Scenario D. When the late answer for \<open>j1\<close> arrives the
  tracked job id is \<open>j2\<close>, its first fetch is in flight and its interval is armed; the
  answer is written into \<open>job\<close> all the same, and being terminal it stops the polling
  of \<open>j2\<close>.
\<close>

theorem C2_counterexample:
  "run init scenario_D \<noteq> None \<and>
   map f_jobId (inflight (the (run init (butlast scenario_D)))) = [''j1'', ''j2''] \<and>
   jobId (the (run init (butlast scenario_D))) = Some ''j2'' \<and>
   job (the (run init (butlast scenario_D))) = None \<and>
   map t_jobId (timers (the (run init (butlast scenario_D)))) = [''j2''] \<and>
   jobId (the (run init scenario_D)) = Some ''j2'' \<and>
   job (the (run init scenario_D)) = Some (j1_is ''completed'') \<and>
   timers (the (run init scenario_D)) = [] \<and>
   isPolling (the (run init scenario_D)) = False"
  by (simp add: scenario_D_def butlast_append scenario_simps)

text \<open>
  Claim C2, amended. \<open>stop\<close>, also run as the cleanup when the tracked job id changes,
  clears the interval at once, and no session begun before it issues another fetch. The
  result of a fetch already in flight is not discarded: when it arrives, whatever session
  is current, a success is written into \<open>job\<close> and a failure into \<open>error\<close>.
\<close>

theorem C2_inflight_result_is_applied:
  assumes "run init tes = Some st"
  shows "timers (stop st) = [] \<and> intervalRef (stop st) = None \<and>
         (\<forall>tes' st'' s. s < next_handle st \<and>
              (run (stop st) tes' = Some st'' \<or>
               new \<noteq> jobId st \<and> run (setJobId new st) tes' = Some st'') \<longrightarrow>
              session_fetches s st'' = session_fetches s st) \<and>
         (step st (t, Resolve n (OkJson d)) = Some st' \<longrightarrow> job st' = Some d) \<and>
         (step st (t, Resolve n res) = Some st' \<and> request res = Inl m \<longrightarrow> error st' = Some m)"
proof -
  have w: "wf st" using wf_run[OF wf_init assms] .
  have a: "timers (stop st) = []" "intervalRef (stop st) = None"
    using stop_clears[OF w] by simp_all
  have b: "session_fetches s st'' = session_fetches s st"
    if "s < next_handle st" "run (stop st) tes' = Some st''" for tes' st'' s
  proof -
    have "session_fetches s st'' = session_fetches s (stop st)"
      using quiet_after[OF a(1) _ that(2)] that(1) by (simp add: stop_fields)
    then show ?thesis by (simp add: session_fetches_def stop_fields)
  qed
  have c: "session_fetches s st'' = session_fetches s st"
    if "s < next_handle st" "new \<noteq> jobId st" "run (setJobId new st) tes' = Some st''"
    for tes' st'' s
    using closed_run[OF setJobId_closes[OF w that(2,1)] that(3)]
    by (simp add: closed_session_def)
  have d: "job st' = Some d" if "step st (t, Resolve n (OkJson d)) = Some st'"
    using step_Resolve[OF that]
    by (simp add: BatchProcessor_fields poll_resume_def request_def Let_def job_stop)
  have e: "error st' = Some m" if "step st (t, Resolve n res) = Some st'" "request res = Inl m"
    using step_Resolve[OF that(1)] that(2)
    by (simp add: BatchProcessor_fields poll_resume_def job_stop)
  show ?thesis using a b c d e by blast
qed

theorem C2_witness:
  "run init polling_j1 = Some st_polling \<and>
   timers st_polling \<noteq> [] \<and> timers (stop st_polling) = [] \<and>
   step st_polling (300, Resolve 0 (OkJson (j1_is ''processing''))) \<noteq> None \<and>
   job (the (step st_polling (300, Resolve 0 (OkJson (j1_is ''processing'')))))
     = Some (j1_is ''processing'') \<and>
   step st_polling (300, Resolve 0 (Rejected ''Failed to fetch'')) \<noteq> None \<and>
   request (Rejected ''Failed to fetch'' :: Job http) = Inl ''Failed to fetch'' \<and>
   error (the (step st_polling (300, Resolve 0 (Rejected ''Failed to fetch''))))
     = Some ''Failed to fetch''"
proof -
  let ?A = "the (step st_polling (300, Resolve 0 (OkJson (j1_is ''processing''))))"
  let ?B = "the (step st_polling (300, Resolve 0 (Rejected ''Failed to fetch'')))"
  have a: "step st_polling (300, Resolve 0 (OkJson (j1_is ''processing''))) = Some ?A"
    by (simp add: scenario_simps)
  have b: "step st_polling (300, Resolve 0 (Rejected ''Failed to fetch'')) = Some ?B"
    by (simp add: scenario_simps)
  have a': "step st_polling (300, Resolve 0 (OkJson (j1_is ''processing''))) \<noteq> None"
    by (simp add: scenario_simps)
  have b': "step st_polling (300, Resolve 0 (Rejected ''Failed to fetch'')) \<noteq> None"
    by (simp add: scenario_simps)
  have r: "request (Rejected ''Failed to fetch'' :: Job http) = Inl ''Failed to fetch''"
    by (simp add: request_def)
  have t0: "timers st_polling \<noteq> []" by (simp add: st_polling_def)
  have "timers (stop st_polling) = []" "job ?A = Some (j1_is ''processing'')"
    using C2_inflight_result_is_applied[OF run_polling_j1,
        where t = 300 and n = 0 and d = "j1_is ''processing''" and st' = ?A] a
    by blast+
  moreover have "error ?B = Some ''Failed to fetch''"
    using C2_inflight_result_is_applied[OF run_polling_j1,
        where t = 300 and n = 0 and res = "Rejected ''Failed to fetch''" and st' = ?B
          and m = "''Failed to fetch''"] b r
    by blast
  ultimately show ?thesis using run_polling_j1 a' b' r t0 by blast
qed

section \<open>Completion and failure\<close>

text \<open>
  Claim C1 asks for one run of the completion callback per completed job. The code
  queues the callback in every render that shows a completed job, and the callback's own
  update of the selection brings the next render. In Scenario A, with one creation
  request and the two fetches of job \<open>j1\<close>, the callback has not run before the job
  completes, has run twice once two queued callbacks are served, and is queued again.
\<close>

theorem C1_completion_callback_runs_again:
  "run init (scenario_A @ [(2200, Timeout), (2205, Timeout)]) \<noteq> None \<and>
   creation_log (the (run init (scenario_A @ [(2200, Timeout), (2205, Timeout)]))) = [[''d1'', ''d2'']] \<and>
   map f_jobId (fetch_log (the (run init (scenario_A @ [(2200, Timeout), (2205, Timeout)])))) = [''j1'', ''j1''] \<and>
   completions (the (run init scenario_A)) = 0 \<and>
   completions (the (run init (scenario_A @ [(2200, Timeout), (2205, Timeout)]))) = 2 \<and>
   timeouts (the (run init (scenario_A @ [(2200, Timeout), (2205, Timeout)]))) = 1"
  by (simp add: scenario_A_def scenario_simps)

text \<open>As long as the job shown is completed, a run of the callback queues the next one.\<close>

lemma completion_callback_requeued:
  assumes "isCompleted st" and "enabled st t Timeout"
  shows "\<exists>st'. step st (t, Timeout) = Some st' \<and> completions st' = completions st + 1 \<and>
               timeouts st' = timeouts st \<and> isCompleted st' \<and> enabled st' t Timeout"
proof -
  let ?s = "handleBatchComplete
              (st\<lparr>now := t, timeouts := timeouts st - 1, completions := completions st + 1\<rparr>)"
  have p: "0 < timeouts st" using assms(2) by (simp add: enabled_def)
  have c: "isCompleted ?s" using assms(1) by (simp add: isCompleted_def handleBatchComplete_def fetchDocuments_def)
  have e: "step st (t, Timeout) = Some (BatchProcessor ?s)"
    using assms(2) by (simp add: step_def dispatch_def)
  have v: "completions (BatchProcessor ?s) = completions st + 1"
          "timeouts (BatchProcessor ?s) = timeouts st" "isCompleted (BatchProcessor ?s)"
    using c p by (simp_all add: BatchProcessor_def isCompleted_def handleBatchComplete_def fetchDocuments_def)
  have "enabled (BatchProcessor ?s) t Timeout"
    using assms(2) c p
    by (simp add: enabled_def BatchProcessor_def handleBatchComplete_def fetchDocuments_def)
  then show ?thesis using e v by blast
qed




text \<open>
  Claim C7, as stated, fails in two places. A transport failure of the second poll,
  after the first answered \<open>queued\<close>, leaves that job in \<open>job\<close>, not \<open>null\<close>. And a body
  whose \<open>detail\<close> is the empty string gives the message \<open>Request failed\<close>, not the
  \<open>detail\<close>.
\<close>

theorem C7_counterexample:
  "run init (polling_j1 @ [(300, Resolve 0 (OkJson (j1_is ''queued''))), (2060, Tick 1),
      (2400, Resolve 1 (NotOk ''Bad Gateway'' (JsonValue (Some (Str ''upstream down'')))))]) \<noteq> None \<and>
   error (the (run init (polling_j1 @ [(300, Resolve 0 (OkJson (j1_is ''queued''))), (2060, Tick 1),
      (2400, Resolve 1 (NotOk ''Bad Gateway'' (JsonValue (Some (Str ''upstream down'')))))]))) = Some ''upstream down'' \<and>
   timers (the (run init (polling_j1 @ [(300, Resolve 0 (OkJson (j1_is ''queued''))), (2060, Tick 1),
      (2400, Resolve 1 (NotOk ''Bad Gateway'' (JsonValue (Some (Str ''upstream down'')))))]))) = [] \<and>
   job (the (run init (polling_j1 @ [(300, Resolve 0 (OkJson (j1_is ''queued''))), (2060, Tick 1),
      (2400, Resolve 1 (NotOk ''Bad Gateway'' (JsonValue (Some (Str ''upstream down'')))))]))) = Some (j1_is ''queued'') \<and>
   request (NotOk ''Bad Request'' (JsonValue (Some (Str ''''))) :: Job http) = Inl ''Request failed''"
  by (simp add: scenario_simps)

text \<open>
  Claim C7, amended. A network fault gives its message, and a response that is not ok
  gives the \<open>detail\<close> of its body when that is a non-empty string (\<open>Request failed\<close> when
  it is empty or missing), as the message of the error \<open>request\<close> throws. A failed
  creation call ends in \<open>submitError\<close> holding that message, with \<open>submitting\<close> false, no
  job id, no fetch and no interval, and no further creation request without a click. A
  failed status fetch ends in \<open>error\<close> holding the message and stops the poller: no
  interval is armed, no session begun so far issues another fetch, no creation request is
  issued, and \<open>job\<close> keeps the value it had: it is not reset to \<open>null\<close>.
\<close>

theorem C7_transport_errors_become_state:
  assumes "run init tes = Some st"
  shows "request (Rejected m :: 'a http) = Inl m \<and>
         (dt \<noteq> [] \<longrightarrow> request (NotOk statusText (JsonValue (Some (Str dt))) :: 'a http) = Inl dt) \<and>
         request (NotOk statusText (JsonValue (Some (Str []))) :: 'a http) = Inl ''Request failed'' \<and>
         request (NotOk statusText (JsonValue None) :: 'a http) = Inl ''Request failed'' \<and>
         (step st (t, SubmitResult sres) = Some st' \<and> request sres = Inl m \<longrightarrow>
            submitError st' = Some m \<and> submitting st' = False \<and> jobId st' = None \<and>
            fetch_log st' = fetch_log st \<and> timers st' = [] \<and>
            (\<forall>tes' st''. run st' tes' = Some st'' \<and> list_all (\<lambda>te. snd te \<noteq> Click) tes' \<longrightarrow>
               creation_log st'' = creation_log st)) \<and>
         (step st (t, Resolve n pres) = Some st' \<and> request pres = Inl m \<longrightarrow>
            error st' = Some m \<and> isPolling st' = False \<and> intervalRef st' = None \<and>
            timers st' = [] \<and> job st' = job st \<and> creation_log st' = creation_log st \<and>
            (\<forall>tes' st'' s. run st' tes' = Some st'' \<and> s < next_handle st' \<longrightarrow>
               session_fetches s st'' = session_fetches s st))"
proof -
  have w: "wf st" using wf_run[OF wf_init assms] .
  have a: "request (Rejected m :: 'a http) = Inl m" by (simp add: request_def)
  have b: "dt \<noteq> [] \<longrightarrow> request (NotOk statusText (JsonValue (Some (Str dt))) :: 'a http) = Inl dt"
    by (simp add: request_def)
  have b': "request (NotOk statusText (JsonValue (Some (Str []))) :: 'a http) = Inl ''Request failed''"
    "request (NotOk statusText (JsonValue None) :: 'a http) = Inl ''Request failed''"
    by (simp_all add: request_def)
  have c: "submitError st' = Some m \<and> submitting st' = False \<and> jobId st' = None \<and>
            fetch_log st' = fetch_log st \<and> timers st' = [] \<and>
            (\<forall>tes' st''. run st' tes' = Some st'' \<and> list_all (\<lambda>te. snd te \<noteq> Click) tes' \<longrightarrow>
               creation_log st'' = creation_log st)"
    if s: "step st (t, SubmitResult sres) = Some st'" and r: "request sres = Inl m"
  proof -
    have e: "st' = BatchProcessor (st\<lparr>now := t, submitError := Some m, submitting := False,
                     creation_pending := creation_pending st - 1\<rparr>)"
      using step_SubmitResult[OF s] r by (simp add: handleProcess_resume_def)
    have cl: "creation_log st' = creation_log st" by (simp add: e BatchProcessor_fields)
    have "0 < creation_pending st" using s by (simp add: step_def enabled_def split: if_splits)
    then have jn: "jobId st = None"
      using sub_run[OF sub_init assms] by (auto simp: submission_inv_def split: if_splits)
    then have tn: "timers st = []" using w by (auto simp: wf_def truthy_def split: option.splits)
    have "\<forall>tes' st''. run st' tes' = Some st'' \<and> list_all (\<lambda>te. snd te \<noteq> Click) tes' \<longrightarrow>
               creation_log st'' = creation_log st"
      using creation_log_run cl by metis
    then show ?thesis using jn tn by (simp add: e BatchProcessor_fields)
  qed
  have d: "error st' = Some m \<and> isPolling st' = False \<and> intervalRef st' = None \<and>
            timers st' = [] \<and> job st' = job st \<and> creation_log st' = creation_log st \<and>
            (\<forall>tes' st'' s. run st' tes' = Some st'' \<and> s < next_handle st' \<longrightarrow>
               session_fetches s st'' = session_fetches s st)"
    if s: "step st (t, Resolve n pres) = Some st'" and r: "request pres = Inl m"
  proof -
    let ?s1 = "st\<lparr>now := t, inflight := filter (\<lambda>f. f_id f \<noteq> n) (inflight st), error := Some m\<rparr>"
    have w1: "wf ?s1" using w by (auto simp: wf_def)
    have e: "st' = BatchProcessor (stop ?s1)"
      using step_Resolve[OF s] r by (simp add: poll_resume_def)
    have t: "timers st' = []" "intervalRef st' = None" "isPolling st' = False"
      using stop_clears[OF w1] by (simp_all add: e BatchProcessor_fields)
    have f: "fetch_log st' = fetch_log st" by (simp add: e BatchProcessor_fields stop_fields)
    have q: "\<forall>tes' st'' s. run st' tes' = Some st'' \<and> s < next_handle st' \<longrightarrow>
               session_fetches s st'' = session_fetches s st"
      using quiet_after[OF t(1)] f by (auto simp: session_fetches_def)
    show ?thesis using t q by (simp add: e BatchProcessor_fields stop_fields)
  qed
  show ?thesis using a b b' c d by blast
qed

theorem C7_witness:
  "run init (polling_j1 @ [(2060, Tick 1), (2500, Resolve 0 (OkJson (j1_is ''failed''))),
                           (3000, Click)]) = Some st_resubmitting \<and>
   request (NotOk ''Too Many Requests'' (JsonValue (Some (Str ''rate limited''))) :: string http)
     = Inl ''rate limited'' \<and>
   step st_resubmitting
     (3100, SubmitResult (NotOk ''Too Many Requests'' (JsonValue (Some (Str ''rate limited''))))) \<noteq> None \<and>
   submitError (the (step st_resubmitting
     (3100, SubmitResult (NotOk ''Too Many Requests'' (JsonValue (Some (Str ''rate limited'')))))))
     = Some ''rate limited'' \<and>
   fetch_log (the (step st_resubmitting
     (3100, SubmitResult (NotOk ''Too Many Requests'' (JsonValue (Some (Str ''rate limited'')))))))
     = fetch_log st_resubmitting \<and>
   request (Rejected ''Failed to fetch'' :: Job http) = Inl ''Failed to fetch'' \<and>
   step st_resubmitting (3100, Resolve 1 (Rejected ''Failed to fetch'')) \<noteq> None \<and>
   error (the (step st_resubmitting (3100, Resolve 1 (Rejected ''Failed to fetch''))))
     = Some ''Failed to fetch'' \<and>
   job (the (step st_resubmitting (3100, Resolve 1 (Rejected ''Failed to fetch''))))
     = job st_resubmitting"
proof -
  let ?A = "the (step st_resubmitting
     (3100, SubmitResult (NotOk ''Too Many Requests'' (JsonValue (Some (Str ''rate limited''))))))"
  let ?B = "the (step st_resubmitting (3100, Resolve 1 (Rejected ''Failed to fetch'')))"
  have r: "run init (polling_j1 @ [(2060, Tick 1), (2500, Resolve 0 (OkJson (j1_is ''failed''))),
                           (3000, Click)]) = Some st_resubmitting"
    by (simp add: st_resubmitting_def scenario_simps)
  have qa: "request (NotOk ''Too Many Requests'' (JsonValue (Some (Str ''rate limited''))) :: string http)
     = Inl ''rate limited''" by (simp add: request_def)
  have qb: "request (Rejected ''Failed to fetch'' :: Job http) = Inl ''Failed to fetch''"
    by (simp add: request_def)
  have a: "step st_resubmitting
     (3100, SubmitResult (NotOk ''Too Many Requests'' (JsonValue (Some (Str ''rate limited''))))) = Some ?A"
    by (simp add: st_resubmitting_def scenario_simps)
  have a': "step st_resubmitting
     (3100, SubmitResult (NotOk ''Too Many Requests'' (JsonValue (Some (Str ''rate limited''))))) \<noteq> None"
    by (simp add: st_resubmitting_def scenario_simps)
  have b: "step st_resubmitting (3100, Resolve 1 (Rejected ''Failed to fetch'')) = Some ?B"
    by (simp add: st_resubmitting_def scenario_simps)
  have b': "step st_resubmitting (3100, Resolve 1 (Rejected ''Failed to fetch'')) \<noteq> None"
    by (simp add: st_resubmitting_def scenario_simps)
  have "submitError ?A = Some ''rate limited''" "fetch_log ?A = fetch_log st_resubmitting"
    using C7_transport_errors_become_state[OF r,
        where t = 3100 and st' = ?A and m = "''rate limited''"
          and sres = "NotOk ''Too Many Requests'' (JsonValue (Some (Str ''rate limited'')))"] a qa
    by blast+
  moreover have "error ?B = Some ''Failed to fetch''" "job ?B = job st_resubmitting"
    using C7_transport_errors_become_state[OF r,
        where t = 3100 and st' = ?B and m = "''Failed to fetch''" and n = 1
          and pres = "Rejected ''Failed to fetch''"] b qb
    by blast+
  ultimately show ?thesis using r qa qb a' b' by blast
qed

end
